theory Spec2Isabelle
  imports Complex_Main "HOL-Library.AList" "HOL-Library.Log_Nat"
begin

section \<open>Data model of the chat server\<close>

text \<open>
  The server (class \<open>ChatServer\<close> of \<open>server.py\<close>) keeps three dictionaries: \<open>clients\<close>
  (socket to username), \<open>usernames\<close> (username to socket) and \<open>last_activity\<close> (socket to
  the time of the last read). A Python dictionary keeps its keys in insertion order,
  assigning to a key that is present keeps its place, and \<open>del\<close> removes the entry: this
  is an association list with \<open>AList.update\<close> and \<open>AList.delete\<close>.

  A socket object is compared by identity; it is modelled by a number. A Python \<open>str\<close>
  is a sequence of Unicode code points, modelled as a list of naturals; \<open>py\<close> turns an
  ASCII literal of the source into that form.
\<close>

type_synonym sock = nat
type_synonym pystr = "nat list"

definition py :: "string \<Rightarrow> pystr" where
  "py lit = map of_char lit"

definition nl :: nat where
  "nl = 10"

definition sp :: nat where
  "sp = 32"

text \<open>
  The exceptions a socket operation raises here. Each of them is a subclass of
  \<open>Exception\<close>, so a clause \<open>except Exception\<close> catches every one of them;
  \<open>socket.timeout\<close> and \<open>ConnectionResetError\<close> have clauses of their own in the
  read loops.
\<close>

datatype exn = OSError | BrokenPipeError | ConnectionResetError | SocketTimeout

text \<open>What \<open>print\<close> writes to the console, one entry per call in the modelled functions.\<close>

datatype log =
    Error_sending exn
  | Error_broadcasting exn
  | Login_error exn
  | Error_receiving pystr exn
  | User_logged_in pystr
  | User_disconnected pystr
  | User_timed_out pystr

text \<open>
  The fields \<open>clients\<close>, \<open>usernames\<close>, \<open>last_activity\<close>, \<open>running\<close> and \<open>idle_timeout\<close>
  are those of the class. The other three are the world the server acts on: \<open>faults\<close>
  gives, for a socket on which \<open>sendall\<close> fails, the exception it raises (a socket the
  server has closed, a peer that went away); \<open>wire\<close> lists, in order, every payload that
  \<open>sendall\<close> has delivered and the socket it was delivered on; \<open>console\<close> is the output
  of \<open>print\<close>. A timestamp is a value of \<open>time.time()\<close>: the real number that this
  double holds.
\<close>

record server =
  clients :: "(sock \<times> pystr) list"
  usernames :: "(pystr \<times> sock) list"
  last_activity :: "(sock \<times> real) list"
  running :: bool
  idle_timeout :: int
  faults :: "sock \<Rightarrow> exn option"
  wire :: "(sock \<times> pystr) list"
  console :: "log list"

text \<open>The lines delivered to one connection so far.\<close>

definition inbox :: "sock \<Rightarrow> server \<Rightarrow> pystr list" where
  "inbox c s = map snd (filter (\<lambda>d. fst d = c) (wire s))"

text \<open>\<open>k in d\<close> for a dictionary \<open>d\<close>.\<close>

definition has_key :: "'k \<Rightarrow> ('k \<times> 'v) list \<Rightarrow> bool" where
  "has_key k d = (k \<in> set (map fst d))"

section \<open>String operations of the Python library\<close>

text \<open>
  \<open>str.strip()\<close> removes the leading and trailing characters that \<open>str.isspace\<close>
  accepts: the ASCII white space and separators, NEL, the no-break space and the Unicode
  space separators.
\<close>

definition isspace :: "nat \<Rightarrow> bool" where
  "isspace c = (c \<in> set [9, 10, 11, 12, 13, 28, 29, 30, 31, 32, 133, 160, 5760]
      \<or> (8192 \<le> c \<and> c \<le> 8202)
      \<or> c \<in> set [8232, 8233, 8239, 8287, 12288])"

definition strip :: "pystr \<Rightarrow> pystr" where
  "strip x = rev (dropWhile isspace (rev (dropWhile isspace x)))"

definition startswith :: "pystr \<Rightarrow> pystr \<Rightarrow> bool" where
  "startswith x p = (take (length p) x = p)"

text \<open>
  \<open>x.split(sep, 1)\<close> for a separator of one character: the text before the first
  separator and the text after it, or \<open>x\<close> alone when there is no separator.
\<close>

definition split1 :: "nat \<Rightarrow> pystr \<Rightarrow> pystr list" where
  "split1 sep x =
     (if sep \<in> set x then [takeWhile (\<lambda>c. c \<noteq> sep) x, tl (dropWhile (\<lambda>c. c \<noteq> sep) x)]
      else [x])"

section \<open>Sending\<close>

text \<open>
  \<open>conn.sendall(payload)\<close>: delivers the payload, or raises what the socket's fault says.
  The payload is kept as the text that the source encodes to UTF-8.
\<close>

definition sendall :: "sock \<Rightarrow> pystr \<Rightarrow> server \<Rightarrow> exn + server" where
  "sendall conn payload s =
     (case faults s conn of
        Some e \<Rightarrow> Inl e
      | None \<Rightarrow> Inr (s\<lparr>wire := wire s @ [(conn, payload)]\<rparr>))"

text \<open>
  \<open>_send\<close>. The first component is how control comes back to the caller: \<open>Inr ()\<close> is a
  normal return (the function has no \<open>return\<close> statement, its value is \<open>None\<close>),
  \<open>Inl e\<close> an exception that leaves the function.
\<close>

definition send :: "sock \<Rightarrow> pystr \<Rightarrow> server \<Rightarrow> (exn + unit) \<times> server" where
  "send conn message s =
     (case sendall conn (message @ [nl]) s of
        Inr s' \<Rightarrow> (Inr (), s')
      | Inl e \<Rightarrow> (Inr (), s\<lparr>console := console s @ [Error_sending e]\<rparr>))"

text \<open>\<open>_broadcast\<close>: the loop over \<open>list(self.clients.keys())\<close>, then the function.\<close>

fun broadcast_to :: "sock list \<Rightarrow> pystr \<Rightarrow> sock option \<Rightarrow> server \<Rightarrow> server" where
  "broadcast_to [] message exclude s = s"
| "broadcast_to (conn # conns) message exclude s =
     (if Some conn \<noteq> exclude then
        (case sendall conn (message @ [nl]) s of
           Inr s' \<Rightarrow> broadcast_to conns message exclude s'
         | Inl e \<Rightarrow>
             broadcast_to conns message exclude (s\<lparr>console := console s @ [Error_broadcasting e]\<rparr>))
      else broadcast_to conns message exclude s)"

definition broadcast :: "pystr \<Rightarrow> sock option \<Rightarrow> server \<Rightarrow> server" where
  "broadcast message exclude s = broadcast_to (map fst (clients s)) message exclude s"

text \<open>\<open>_send_private\<close>.\<close>

definition send_private :: "sock \<Rightarrow> pystr \<Rightarrow> pystr \<Rightarrow> pystr \<Rightarrow> server \<Rightarrow> server" where
  "send_private sender_conn from_user to_user text s =
     (case map_of (usernames s) to_user of
        None \<Rightarrow> snd (send sender_conn (py ''ERR user-not-found '' @ to_user) s)
      | Some target_conn \<Rightarrow> snd (send target_conn (py ''DM '' @ from_user @ [sp] @ text) s))"

section \<open>Teardown\<close>

text \<open>
  \<open>conn.close()\<close>: from then on the socket refuses every operation. The call sits in a
  \<open>try\<close> whose \<open>except\<close> passes, and closing a closed socket does nothing.
\<close>

definition close :: "sock \<Rightarrow> server \<Rightarrow> server" where
  "close conn s = s\<lparr>faults := (faults s)(conn \<mapsto> OSError)\<rparr>"

text \<open>\<open>_remove_client\<close>.\<close>

definition remove_client :: "sock \<Rightarrow> pystr option \<Rightarrow> server \<Rightarrow> server" where
  "remove_client conn username s =
     (let s1 = (if has_key conn (clients s)
                then s\<lparr>clients := AList.delete conn (clients s)\<rparr> else s);
          s2 = (case username of
                  None \<Rightarrow> s1
                | Some u \<Rightarrow>
                    if u \<noteq> [] \<and> has_key u (usernames s1)
                    then s1\<lparr>usernames := AList.delete u (usernames s1)\<rparr> else s1);
          s3 = (if has_key conn (last_activity s2)
                then s2\<lparr>last_activity := AList.delete conn (last_activity s2)\<rparr> else s2);
          s4 = close conn s3
      in case username of
           None \<Rightarrow> s4
         | Some u \<Rightarrow>
             if u \<noteq> [] then
               broadcast (py ''INFO '' @ u @ py '' disconnected'') None
                 (s4\<lparr>console := console s4 @ [User_disconnected u]\<rparr>)
             else s4)"

section \<open>Commands of a logged-in user\<close>

text \<open>\<open>_process_command\<close>. The loop of the \<open>WHO\<close> branch comes first.\<close>

fun send_users :: "sock \<Rightarrow> pystr list \<Rightarrow> server \<Rightarrow> server" where
  "send_users conn [] s = s"
| "send_users conn (user # users) s =
     send_users conn users (snd (send conn (py ''USER '' @ user) s))"

definition process_command :: "sock \<Rightarrow> pystr \<Rightarrow> pystr \<Rightarrow> server \<Rightarrow> server" where
  "process_command conn username line s =
     (if startswith line (py ''MSG '') then
        (let text = strip (drop 4 line)
         in if text \<noteq> [] then
              broadcast (py ''MSG '' @ username @ [sp] @ text) (Some conn) s
            else s)
      else if line = py ''WHO'' then
        send_users conn (map fst (usernames s)) s
      else if startswith line (py ''DM '') then
        (case split1 sp (strip (drop 3 line)) of
           target_user # text # _ \<Rightarrow> send_private conn username target_user text s
         | _ \<Rightarrow> snd (send conn (py ''ERR invalid-dm-format'') s))
      else if line = py ''PING'' then
        snd (send conn (py ''PONG'') s)
      else s)"

section \<open>Reading lines\<close>

text \<open>
  The split of the buffer at its first newline, under the loop condition that the buffer
  holds a newline: the first line and the rest of the buffer, or nothing when the buffer
  holds no complete line.
\<close>

definition next_line :: "pystr \<Rightarrow> (pystr \<times> pystr) option" where
  "next_line buffer =
     (if nl \<in> set buffer
      then Some (takeWhile (\<lambda>c. c \<noteq> nl) buffer, tl (dropWhile (\<lambda>c. c \<noteq> nl) buffer))
      else None)"

text \<open>
  What \<open>conn.recv\<close> gives: data (here already decoded; the text may be empty when every
  byte was dropped by the decoder) together with the value of \<open>time.time()\<close> read right
  after it, the empty data of a closed stream, or an exception.
\<close>

datatype recv = Data pystr real | Eof | Raises exn

text \<open>\<open>self.last_activity[conn] = time.time()\<close>.\<close>

definition touch :: "sock \<Rightarrow> real \<Rightarrow> server \<Rightarrow> server" where
  "touch conn now s = s\<lparr>last_activity := AList.update conn now (last_activity s)\<rparr>"

section \<open>Login\<close>

text \<open>
  The body of the inner loop of \<open>_handle_login\<close> for one line taken from the buffer:
  it either goes on with the loop or returns the username.
\<close>

datatype login_step = Continue | Return pystr

definition login_line :: "sock \<Rightarrow> pystr \<Rightarrow> server \<Rightarrow> login_step \<times> server" where
  "login_line conn raw s =
     (let line = strip raw
      in if line = [] then (Continue, s)
         else if startswith line (py ''LOGIN '') then
           (let username = strip (drop 6 line)
            in if username = [] then
                 (Continue, snd (send conn (py ''ERR invalid-username'') s))
               else if has_key username (usernames s) then
                 (Continue, snd (send conn (py ''ERR username-taken'') s))
               else
                 (let s1 = s\<lparr>clients := AList.update conn username (clients s)\<rparr>;
                      s2 = s1\<lparr>usernames := AList.update username conn (usernames s1)\<rparr>
                  in (Return username, snd (send conn (py ''OK'') s2))))
         else (Continue, snd (send conn (py ''ERR must-login-first'') s)))"

text \<open>
  The inner loop of \<open>_handle_login\<close>: it takes complete lines from the buffer until one
  of them logs the user in or no complete line is left. The result is the username or
  \<open>None\<close>, the buffer that remains, and the state.
\<close>

function login_buffer :: "sock \<Rightarrow> pystr \<Rightarrow> server \<Rightarrow> pystr option \<times> pystr \<times> server" where
  "login_buffer conn buffer s =
     (case next_line buffer of
        None \<Rightarrow> (None, buffer, s)
      | Some (raw, rest) \<Rightarrow>
          (case login_line conn raw s of
             (Return username, s') \<Rightarrow> (Some username, rest, s')
           | (Continue, s') \<Rightarrow> login_buffer conn rest s'))"
  by pat_completeness auto

termination login_buffer
proof (relation "measure (\<lambda>(conn, buffer, s). length buffer)")
  fix conn :: sock and buffer raw rest :: pystr and s s' :: server and x
  assume "next_line buffer = Some x" and "(raw, rest) = x"
  then have "nl \<in> set buffer" and rest: "rest = tl (dropWhile (\<lambda>c. c \<noteq> nl) buffer)"
    by (auto simp: next_line_def split: if_splits)
  then obtain c cs where "dropWhile (\<lambda>c. c \<noteq> nl) buffer = c # cs"
    by (cases "dropWhile (\<lambda>c. c \<noteq> nl) buffer") (auto simp: dropWhile_eq_Nil_conv)
  then have "length rest < length buffer"
    using rest length_dropWhile_le [of "\<lambda>c. c \<noteq> nl" buffer] by simp
  then show "((conn, rest, s'), conn, buffer, s) \<in> measure (\<lambda>(conn, buffer, s). length buffer)"
    by simp
qed simp

text \<open>
  A function that reads from a connection is run on the list of what \<open>recv\<close> gives, in
  order. When the list is used up the function is still waiting inside \<open>recv\<close>:
  that is \<open>Blocked\<close>, with the buffer it holds.
\<close>

datatype 'a run = Returned 'a | Blocked pystr

text \<open>\<open>_handle_login\<close>: the result, the reads that were not used, and the state.\<close>

fun handle_login :: "sock \<Rightarrow> pystr \<Rightarrow> recv list \<Rightarrow> server \<Rightarrow> pystr option run \<times> recv list \<times> server" where
  "handle_login conn buffer [] s =
     (if running s then (Blocked buffer, [], s) else (Returned None, [], s))"
| "handle_login conn buffer (r # rs) s =
     (if \<not> running s then (Returned None, r # rs, s)
      else
        (case r of
           Eof \<Rightarrow> (Returned None, rs, s)
         | Raises e \<Rightarrow>
             if e = SocketTimeout then handle_login conn buffer rs s
             else (Returned None, rs, s\<lparr>console := console s @ [Login_error e]\<rparr>)
         | Data text now \<Rightarrow>
             (case login_buffer conn (buffer @ text) (touch conn now s) of
                (Some username, _, s') \<Rightarrow> (Returned (Some username), rs, s')
              | (None, buffer', s') \<Rightarrow> handle_login conn buffer' rs s')))"

section \<open>The loop of a logged-in user\<close>

text \<open>The inner loop of \<open>_handle_client\<close>: every complete line of the buffer, in order.\<close>

function process_buffer :: "sock \<Rightarrow> pystr \<Rightarrow> pystr \<Rightarrow> server \<Rightarrow> pystr \<times> server" where
  "process_buffer conn username buffer s =
     (case next_line buffer of
        None \<Rightarrow> (buffer, s)
      | Some (raw, rest) \<Rightarrow>
          process_buffer conn username rest
            (if strip raw \<noteq> [] then process_command conn username (strip raw) s else s))"
  by pat_completeness auto

termination process_buffer
proof (relation "measure (\<lambda>(conn, username, buffer, s). length buffer)")
  fix conn :: sock and username buffer raw rest :: pystr and s :: server and x
  assume "next_line buffer = Some x" and "(raw, rest) = x"
  then have "nl \<in> set buffer" and rest: "rest = tl (dropWhile (\<lambda>c. c \<noteq> nl) buffer)"
    by (auto simp: next_line_def split: if_splits)
  then obtain c cs where "dropWhile (\<lambda>c. c \<noteq> nl) buffer = c # cs"
    by (cases "dropWhile (\<lambda>c. c \<noteq> nl) buffer") (auto simp: dropWhile_eq_Nil_conv)
  then have "length rest < length buffer"
    using rest length_dropWhile_le [of "\<lambda>c. c \<noteq> nl" buffer] by simp
  then show "((conn, username, rest,
        if strip raw \<noteq> [] then process_command conn username (strip raw) s else s),
      conn, username, buffer, s) \<in> measure (\<lambda>(conn, username, buffer, s). length buffer)"
    by simp
qed simp

text \<open>The main loop of \<open>_handle_client\<close>; \<open>Returned ()\<close> is the loop left.\<close>

fun message_loop :: "sock \<Rightarrow> pystr \<Rightarrow> pystr \<Rightarrow> recv list \<Rightarrow> server \<Rightarrow> unit run \<times> server" where
  "message_loop conn username buffer [] s =
     (if running s then (Blocked buffer, s) else (Returned (), s))"
| "message_loop conn username buffer (r # rs) s =
     (if \<not> running s then (Returned (), s)
      else
        (case r of
           Eof \<Rightarrow> (Returned (), s)
         | Raises e \<Rightarrow>
             if e = SocketTimeout then message_loop conn username buffer rs s
             else if e = ConnectionResetError then (Returned (), s)
             else (Returned (), s\<lparr>console := console s @ [Error_receiving username e]\<rparr>)
         | Data text now \<Rightarrow>
             (case process_buffer conn username (buffer @ text) (touch conn now s) of
                (buffer', s') \<Rightarrow> message_loop conn username buffer' rs s')))"

text \<open>
  \<open>_handle_client\<close>, from the accepted connection to the teardown in its \<open>finally\<close>
  clause. \<open>accepted\<close> is what it does before it waits for the login. The result says
  where the connection stands when the reads are used up.
\<close>

datatype phase = Authenticating pystr | Authenticated pystr pystr | Terminated

definition accepted :: "sock \<Rightarrow> real \<Rightarrow> server \<Rightarrow> server" where
  "accepted conn now s = touch conn now s"

definition handle_client :: "sock \<Rightarrow> real \<Rightarrow> recv list \<Rightarrow> server \<Rightarrow> phase \<times> server" where
  "handle_client conn now rs s =
     (case handle_login conn [] rs (accepted conn now s) of
        (Blocked buffer, _, s1) \<Rightarrow> (Authenticating buffer, s1)
      | (Returned None, _, s1) \<Rightarrow> (Terminated, remove_client conn None (close conn s1))
      | (Returned (Some username), rs', s1) \<Rightarrow>
          (case message_loop conn username [] rs'
                  (s1\<lparr>console := console s1 @ [User_logged_in username]\<rparr>) of
             (Blocked buffer, s2) \<Rightarrow> (Authenticated username buffer, s2)
           | (Returned _, s2) \<Rightarrow> (Terminated, remove_client conn (Some username) s2)))"

section \<open>Arithmetic on doubles\<close>

text \<open>
  The reaper subtracts two timestamps and compares the difference with the timeout. Both
  timestamps are doubles, and so is their difference: the exact difference rounded to
  the nearest double, to the one with the even significand when two are equally near. A
  double has a significand of 53 bits; its last bit stands for \<open>2\<close> to the power of the
  exponent of the number less 52, and for no less than \<open>2\<close> to the power of \<open>-1074\<close>.
\<close>

definition pow2 :: "int \<Rightarrow> real" where
  "pow2 k = (if 0 \<le> k then 2 ^ nat k else 1 / 2 ^ nat (- k))"

text \<open>The \<open>e\<close> with \<open>pow2 e \<le> \<bar>r\<bar> < pow2 (e + 1)\<close>, for \<open>r\<close> other than 0.\<close>

definition binary_exponent :: "real \<Rightarrow> int" where
  "binary_exponent r =
     (if 1 \<le> \<bar>r\<bar> then bitlen \<lfloor>\<bar>r\<bar>\<rfloor> - 1 else - bitlen (\<lceil>1 / \<bar>r\<bar>\<rceil> - 1))"

definition round_half_even :: "real \<Rightarrow> int" where
  "round_half_even q =
     (if q - of_int \<lfloor>q\<rfloor> < 1 / 2 then \<lfloor>q\<rfloor>
      else if 1 / 2 < q - of_int \<lfloor>q\<rfloor> then \<lfloor>q\<rfloor> + 1
      else if even \<lfloor>q\<rfloor> then \<lfloor>q\<rfloor> else \<lfloor>q\<rfloor> + 1)"

definition round_double :: "real \<Rightarrow> real" where
  "round_double r =
     (if r = 0 then 0
      else of_int (round_half_even (r / pow2 (max (binary_exponent r - 52) (- 1074))))
           * pow2 (max (binary_exponent r - 52) (- 1074)))"

text \<open>
  \<open>x - y\<close> on doubles. A result of \<open>2 ^ 1024\<close> or more in size stands for the infinity
  that the subtraction gives then.
\<close>

definition float_sub :: "real \<Rightarrow> real \<Rightarrow> real" where
  "float_sub x y = round_double (x - y)"

text \<open>\<open>d > n\<close> for a double \<open>d\<close> and an \<open>int\<close> \<open>n\<close>, which Python compares exactly.\<close>

definition float_gt_int :: "real \<Rightarrow> int \<Rightarrow> bool" where
  "float_gt_int d n =
     (if 2 ^ 1024 \<le> d then True
      else if d \<le> - (2 ^ 1024) then False
      else real_of_int n < d)"

section \<open>The idle reaper\<close>

text \<open>
  One round of the loop of \<open>_check_idle_clients\<close> after its sleep, at the time
  \<open>current_time\<close>: the connections to remove are collected first, each with the name
  that \<open>self.clients.get(conn)\<close> gives, then removed one after the other.
\<close>

definition clients_to_remove :: "real \<Rightarrow> server \<Rightarrow> (sock \<times> pystr option) list" where
  "clients_to_remove current_time s =
     map (\<lambda>(conn, last_time). (conn, map_of (clients s) conn))
       (filter (\<lambda>(conn, last_time).
            float_gt_int (float_sub current_time last_time) (idle_timeout s))
          (last_activity s))"

text \<open>The body of the second loop, for one of the collected connections.\<close>

definition evict :: "sock \<Rightarrow> pystr option \<Rightarrow> server \<Rightarrow> server" where
  "evict conn username s =
     (case username of
        None \<Rightarrow> remove_client conn None s
      | Some u \<Rightarrow>
          if u \<noteq> [] then
            remove_client conn (Some u)
              (snd (send conn (py ''ERR idle-timeout'')
                 (s\<lparr>console := console s @ [User_timed_out u]\<rparr>)))
          else remove_client conn (Some u) s)"

fun remove_idle :: "(sock \<times> pystr option) list \<Rightarrow> server \<Rightarrow> server" where
  "remove_idle [] s = s"
| "remove_idle ((conn, username) # rest) s = remove_idle rest (evict conn username s)"

definition check_idle_round :: "real \<Rightarrow> server \<Rightarrow> server" where
  "check_idle_round current_time s = remove_idle (clients_to_remove current_time s) s"

text \<open>\<open>_check_idle_clients\<close> over the times at which its rounds run.\<close>

fun check_idle_clients :: "real list \<Rightarrow> server \<Rightarrow> server" where
  "check_idle_clients [] s = s"
| "check_idle_clients (current_time # later) s =
     (if running s then check_idle_clients later (check_idle_round current_time s) else s)"

text \<open>
  The lines \<open>INFO name disconnected\<close> for the collected connections that have a name, in
  the order of their removal.
\<close>

definition disconnect_notices :: "(sock \<times> pystr option) list \<Rightarrow> pystr list" where
  "disconnect_notices xs =
     concat (map (\<lambda>(conn, username).
       case username of
         None \<Rightarrow> []
       | Some u \<Rightarrow> if u \<noteq> [] then [py ''INFO '' @ u @ py '' disconnected'' @ [nl]] else []) xs)"

text \<open>
  Each of the three dictionaries holds a key at most once. The theorems about broadcasts
  assume it of the state they start from; the last section shows that it holds of every
  state the server reaches.
\<close>

definition keys_once :: "server \<Rightarrow> bool" where
  "keys_once s \<longleftrightarrow>
     distinct (map fst (clients s)) \<and> distinct (map fst (usernames s)) \<and>
     distinct (map fst (last_activity s))"

section \<open>States\<close>

text \<open>The state that \<open>__init__\<close> builds, with every socket in working order.\<close>

definition init :: "int \<Rightarrow> server" where
  "init timeout =
     \<lparr>clients = [], usernames = [], last_activity = [], running = False,
      idle_timeout = timeout, faults = (\<lambda>_. None), wire = [], console = []\<rparr>"

text \<open>
  A running server with a timeout of 60 seconds and two users logged in: alice on socket 1,
  last heard of at time 0, and bob on socket 2, last heard of at time 90.
\<close>

definition alice_and_bob :: server where
  "alice_and_bob =
     (init 60)\<lparr>clients := [(1, py ''alice''), (2, py ''bob'')],
       usernames := [(py ''alice'', 1), (py ''bob'', 2)],
       last_activity := [(1, 0), (2, 90)], running := True\<rparr>"

text \<open>
  A teardown that comes late. The reaper removes alice, idle on socket 1, at time 100. A
  new connection on socket 3 then logs in as alice. Only then does the thread that served
  socket 1 leave its loop, and its \<open>finally\<close> clause tears socket 1 down under the name
  alice.
\<close>

definition late_teardown :: server where
  "late_teardown =
     remove_client 1 (Some (py ''alice''))
       (snd (handle_client 3 101 [Data (py ''LOGIN alice'' @ [nl]) 102]
          (check_idle_round 100 alice_and_bob)))"

text \<open>
  Alice, idle since time 0; bob, idle since time 10, whose socket is broken; carol, active at
  time 90; and a fourth connection, accepted at time 0, that has not logged in.
\<close>

definition idle_example :: server where
  "idle_example =
     alice_and_bob\<lparr>clients := [(1, py ''alice''), (2, py ''bob''), (3, py ''carol'')],
       usernames := [(py ''alice'', 1), (py ''bob'', 2), (py ''carol'', 3)],
       last_activity := [(1, 0), (2, 10), (3, 90), (4, 0)],
       faults := (\<lambda>_. None)(2 \<mapsto> BrokenPipeError)\<rparr>"

section \<open>Rounding to a double\<close>

text \<open>The equations that compute a difference of doubles and its comparison.\<close>

lemmas float_eval =
  float_gt_int_def float_sub_def round_double_def binary_exponent_def pow2_def
  round_half_even_def compute_bitlen

lemma pow2_nonneg: "0 \<le> k \<Longrightarrow> pow2 k = 2 ^ nat k"
  by (simp add: pow2_def)

lemma pow2_neg: "k \<le> 0 \<Longrightarrow> pow2 k = 1 / 2 ^ nat (- k)"
  by (cases "k = 0") (simp_all add: pow2_def)

text \<open>The exponent is the one of the text above.\<close>

lemma binary_exponent_bounds:
  assumes "r \<noteq> 0"
  shows "pow2 (binary_exponent r) \<le> \<bar>r\<bar> \<and> \<bar>r\<bar> < pow2 (binary_exponent r + 1)"
proof (cases "1 \<le> \<bar>r\<bar>")
  case True
  define x where "x = \<lfloor>\<bar>r\<bar>\<rfloor>"
  from True have x: "0 < x" by (simp add: x_def)
  have e: "binary_exponent r = bitlen x - 1"
    using True by (simp add: binary_exponent_def x_def)
  from x have b: "1 \<le> bitlen x"
    using bitlen_nonneg [of x] bitlen_eq_zero_iff [of x] by linarith
  from bitlen_bounds [OF x] have lo: "2 ^ nat (bitlen x - 1) \<le> x" and hi: "x < 2 ^ nat (bitlen x)"
    by simp_all
  have "real_of_int (2 ^ nat (bitlen x - 1)) \<le> real_of_int x"
    using lo by (simp only: of_int_le_iff)
  also have "real_of_int x \<le> \<bar>r\<bar>"
    by (simp add: x_def)
  finally have low: "2 ^ nat (bitlen x - 1) \<le> \<bar>r\<bar>"
    by simp
  from hi have "x + 1 \<le> 2 ^ nat (bitlen x)" by simp
  then have "real_of_int (x + 1) \<le> real_of_int (2 ^ nat (bitlen x))"
    by (simp only: of_int_le_iff)
  moreover have "\<bar>r\<bar> < real_of_int (x + 1)"
    by (simp add: x_def)
  ultimately have high: "\<bar>r\<bar> < 2 ^ nat (bitlen x)"
    by simp
  from b low high show ?thesis
    by (simp add: e pow2_nonneg)
next
  case False
  with assms have r: "0 < \<bar>r\<bar>" "\<bar>r\<bar> < 1" by simp_all
  define y where "y = \<lceil>1 / \<bar>r\<bar>\<rceil> - 1"
  from r have "1 < 1 / \<bar>r\<bar>" by simp
  then have "1 < \<lceil>1 / \<bar>r\<bar>\<rceil>" by linarith
  then have y: "0 < y" by (simp add: y_def)
  have e: "binary_exponent r = - bitlen y"
    using False by (simp add: binary_exponent_def y_def)
  from y have b: "1 \<le> bitlen y"
    using bitlen_nonneg [of y] bitlen_eq_zero_iff [of y] by linarith
  from bitlen_bounds [OF y] have lo: "2 ^ nat (bitlen y - 1) \<le> y" and hi: "y < 2 ^ nat (bitlen y)"
    by simp_all
  from hi have "y + 1 \<le> 2 ^ nat (bitlen y)" by simp
  then have "real_of_int (y + 1) \<le> real_of_int (2 ^ nat (bitlen y))"
    by (simp only: of_int_le_iff)
  moreover have "1 / \<bar>r\<bar> \<le> real_of_int (y + 1)"
    by (simp add: y_def)
  ultimately have "1 / \<bar>r\<bar> \<le> 2 ^ nat (bitlen y)"
    by simp
  with r have low: "1 / 2 ^ nat (bitlen y) \<le> \<bar>r\<bar>"
    by (simp add: field_simps)
  have "real_of_int (2 ^ nat (bitlen y - 1)) \<le> real_of_int y"
    using lo by (simp only: of_int_le_iff)
  also have "real_of_int y < 1 / \<bar>r\<bar>"
    unfolding y_def by linarith
  finally have "2 ^ nat (bitlen y - 1) < 1 / \<bar>r\<bar>"
    by simp
  with r have high: "\<bar>r\<bar> < 1 / 2 ^ nat (bitlen y - 1)"
    by (simp add: field_simps)
  have "nat (- (1 - bitlen y)) = nat (bitlen y - 1)"
    by simp
  with b low high show ?thesis
    by (simp add: e pow2_neg)
qed

lemma pow2_pos: "0 < pow2 k"
  by (simp add: pow2_def)

lemma round_half_even_near: "\<bar>of_int (round_half_even q) - q\<bar> \<le> 1 / 2"
proof -
  have "of_int \<lfloor>q\<rfloor> \<le> q" and "q < of_int \<lfloor>q\<rfloor> + 1"
    by linarith+
  then show ?thesis
    by (auto simp: round_half_even_def abs_le_iff)
qed

text \<open>
  The rounded number is a whole multiple of the value of the last bit, by its definition,
  and lies no more than half of that value from the exact one.
\<close>

lemma round_double_near:
  assumes "r \<noteq> 0"
  shows "\<bar>round_double r - r\<bar> \<le> pow2 (max (binary_exponent r - 52) (- 1074)) / 2"
proof -
  let ?u = "pow2 (max (binary_exponent r - 52) (- 1074))"
  have u: "0 < ?u" by (rule pow2_pos)
  have "\<bar>of_int (round_half_even (r / ?u)) - r / ?u\<bar> * ?u \<le> 1 / 2 * ?u"
    using round_half_even_near [of "r / ?u"] u by (intro mult_right_mono) simp_all
  moreover have "\<bar>of_int (round_half_even (r / ?u)) - r / ?u\<bar> * ?u =
      \<bar>of_int (round_half_even (r / ?u)) * ?u - r\<bar>"
  proof -
    have "\<bar>of_int (round_half_even (r / ?u)) - r / ?u\<bar> * ?u =
        \<bar>(of_int (round_half_even (r / ?u)) - r / ?u) * ?u\<bar>"
      using u by (simp add: abs_mult)
    also have "(of_int (round_half_even (r / ?u)) - r / ?u) * ?u =
        of_int (round_half_even (r / ?u)) * ?u - r"
      using u by (simp add: left_diff_distrib)
    finally show ?thesis .
  qed
  ultimately show ?thesis
    using assms by (simp add: round_double_def)
qed

lemma round_half_even_of_int: "round_half_even (of_int m) = m"
  by (simp add: round_half_even_def)

text \<open>A whole number below \<open>2 ^ 53\<close> in size is a double, and rounding leaves it alone.\<close>

lemma round_double_of_int:
  assumes "\<bar>n\<bar> < 2 ^ 53"
  shows "round_double (of_int n) = of_int n"
proof (cases "n = 0")
  case True
  then show ?thesis by (simp add: round_double_def)
next
  case False
  then have pos: "0 < \<bar>n\<bar>" by simp
  have one: "1 \<le> \<bar>real_of_int n\<bar>"
    using False by (metis abs_ge_zero of_int_abs of_int_1_le_iff zero_less_abs_iff
        zless_imp_add1_zle add_0)
  have floor: "\<lfloor>\<bar>real_of_int n\<bar>\<rfloor> = \<bar>n\<bar>"
    by (metis of_int_abs floor_of_int)
  have "bitlen \<bar>n\<bar> \<le> 53"
    using assms by (simp add: bitlen_le_iff_power)
  moreover have "1 \<le> bitlen \<bar>n\<bar>"
    using pos bitlen_nonneg [of "\<bar>n\<bar>"] bitlen_eq_zero_iff [of "\<bar>n\<bar>"] by linarith
  ultimately have e: "0 \<le> binary_exponent (of_int n)" "binary_exponent (of_int n) \<le> 52"
    using one by (simp_all add: binary_exponent_def floor)
  define j where "j = nat (52 - binary_exponent (of_int n))"
  have k: "max (binary_exponent (of_int n) - 52) (- 1074) = - int j"
    using e by (simp add: j_def)
  have p: "pow2 (- int j) = 1 / 2 ^ j"
    by (cases "j = 0") (simp_all add: pow2_def)
  have "real_of_int n / pow2 (- int j) = of_int (n * 2 ^ j)"
    by (simp add: p)
  then have "round_half_even (real_of_int n / pow2 (- int j)) = n * 2 ^ j"
    by (simp only: round_half_even_of_int)
  then show ?thesis
    using False by (simp add: round_double_def k p)
qed

lemma float_sub_of_int:
  "\<bar>a - b\<bar> < 2 ^ 53 \<Longrightarrow> float_sub (of_int a) (of_int b) = of_int (a - b)"
  using round_double_of_int [of "a - b"] by (simp add: float_sub_def)

text \<open>
  The doubles nearest to 0.1 and to 60.1, and their difference as a double: 60, though the
  exact difference is more than 60.
\<close>

lemma double_examples:
  "round_double (1 / 10) = 3602879701896397 / 36028797018963968"
  "round_double (601 / 10) = 8458323050155213 / 140737488355328"
  "float_sub (8458323050155213 / 140737488355328) (3602879701896397 / 36028797018963968) = 60"
  "60 < (8458323050155213 / 140737488355328 :: real) - 3602879701896397 / 36028797018963968"
  "\<not> float_gt_int
     (float_sub (8458323050155213 / 140737488355328) (3602879701896397 / 36028797018963968)) 60"
  by (simp_all add: float_eval)

section \<open>Dictionaries and the wire\<close>

lemma has_key_map_of: "has_key k d \<longleftrightarrow> map_of d k \<noteq> None"
  by (simp add: has_key_def map_of_eq_None_iff)

lemma has_key_delete: "has_key k (AList.delete k' d) \<longleftrightarrow> has_key k d \<and> k \<noteq> k'"
  by (auto simp: has_key_def delete_keys)

lemma has_key_update: "has_key k (AList.update k' v d) \<longleftrightarrow> has_key k d \<or> k = k'"
  using dom_update [of k' v d] by (auto simp: has_key_def)

lemma filter_eq_distinct:
  "distinct xs \<Longrightarrow> filter (\<lambda>x. x = c \<and> P x) xs = (if c \<in> set xs \<and> P c then [c] else [])"
  by (induction xs) auto

lemma send_fields [simp]:
  "clients (snd (send conn message s)) = clients s"
  "usernames (snd (send conn message s)) = usernames s"
  "last_activity (snd (send conn message s)) = last_activity s"
  "running (snd (send conn message s)) = running s"
  "idle_timeout (snd (send conn message s)) = idle_timeout s"
  "faults (snd (send conn message s)) = faults s"
  by (simp_all add: send_def sendall_def split: option.splits)

lemma send_wire:
  "wire (snd (send conn message s)) =
     wire s @ (if faults s conn = None then [(conn, message @ [nl])] else [])"
  by (simp add: send_def sendall_def split: option.splits)

lemma send_inbox:
  "inbox c (snd (send conn message s)) =
     inbox c s @ (if c = conn \<and> faults s conn = None then [message @ [nl]] else [])"
  by (simp add: inbox_def send_wire)

lemma broadcast_to_fields [simp]:
  "clients (broadcast_to conns message exclude s) = clients s"
  "usernames (broadcast_to conns message exclude s) = usernames s"
  "last_activity (broadcast_to conns message exclude s) = last_activity s"
  "running (broadcast_to conns message exclude s) = running s"
  "idle_timeout (broadcast_to conns message exclude s) = idle_timeout s"
  "faults (broadcast_to conns message exclude s) = faults s"
  by (induction conns arbitrary: s; simp add: sendall_def split: option.splits)+

lemma broadcast_to_wire:
  "wire (broadcast_to conns message exclude s) =
     wire s @ map (\<lambda>c. (c, message @ [nl]))
       (filter (\<lambda>c. Some c \<noteq> exclude \<and> faults s c = None) conns)"
  by (induction conns arbitrary: s) (simp_all add: sendall_def split: option.splits)

lemma broadcast_fields [simp]:
  "clients (broadcast message exclude s) = clients s"
  "usernames (broadcast message exclude s) = usernames s"
  "last_activity (broadcast message exclude s) = last_activity s"
  "running (broadcast message exclude s) = running s"
  "idle_timeout (broadcast message exclude s) = idle_timeout s"
  "faults (broadcast message exclude s) = faults s"
  by (simp_all add: broadcast_def)

lemma broadcast_inbox:
  assumes "distinct (map fst (clients s))"
  shows "inbox c (broadcast message exclude s) =
     inbox c s @ (if has_key c (clients s) \<and> Some c \<noteq> exclude \<and> faults s c = None
                  then [message @ [nl]] else [])"
proof -
  let ?live = "\<lambda>c. Some c \<noteq> exclude \<and> faults s c = None"
  have "map snd (filter (\<lambda>d. fst d = c)
          (map (\<lambda>c. (c, message @ [nl])) (filter ?live (map fst (clients s)))))
      = map (\<lambda>_. message @ [nl]) (filter (\<lambda>x. x = c \<and> ?live x) (map fst (clients s)))"
    by (simp add: filter_map comp_def conj_commute)
  also have "\<dots> = (if c \<in> set (map fst (clients s)) \<and> ?live c then [message @ [nl]] else [])"
    using assms by (simp only: filter_eq_distinct) simp
  finally show ?thesis
    by (simp add: inbox_def broadcast_def broadcast_to_wire has_key_def)
qed

section \<open>The single-connection send\<close>

text \<open>
  C8, as the code has it. Whatever happens to the delivery, \<open>_send\<close> returns normally and
  its value is \<open>None\<close>: no exception leaves it. When \<open>sendall\<close> raises, nothing is
  delivered, the registry is left alone, and the only trace of the failure is one line
  on the console.
\<close>

theorem send_swallows_delivery_failure:
  "fst (send conn message s) = Inr () \<and>
   (\<forall>e. sendall conn (message @ [nl]) s = Inl e \<longrightarrow>
      snd (send conn message s) = s\<lparr>console := console s @ [Error_sending e]\<rparr>)"
  by (simp add: send_def split: sum.splits)

text \<open>A \<open>PONG\<close> sent on socket 1 after the server has closed it.\<close>

theorem send_swallows_delivery_failure_witness:
  "sendall 1 (py ''PONG'' @ [nl]) (close 1 (init 60)) = Inl OSError \<and>
   fst (send 1 (py ''PONG'') (close 1 (init 60))) = Inr () \<and>
   snd (send 1 (py ''PONG'') (close 1 (init 60))) =
     (close 1 (init 60))\<lparr>console := console (close 1 (init 60)) @ [Error_sending OSError]\<rparr>"
proof -
  have failed: "sendall 1 (py ''PONG'' @ [nl]) (close 1 (init 60)) = Inl OSError"
    by (simp add: sendall_def close_def init_def)
  with send_swallows_delivery_failure [of 1 "py ''PONG''" "close 1 (init 60)"]
  show ?thesis by simp
qed

text \<open>
  C8, as the specification has it, fails where it says that the failure is reported to
  the caller. On a closed socket the delivery fails, on an open one it succeeds, and the
  caller gets the same thing back from both calls.
\<close>

theorem send_failure_not_reported_counterexample:
  "isl (sendall 1 (py ''PONG'' @ [nl]) (close 1 (init 60))) \<and>
   \<not> isl (sendall 1 (py ''PONG'' @ [nl]) (init 60)) \<and>
   fst (send 1 (py ''PONG'') (close 1 (init 60))) = fst (send 1 (py ''PONG'') (init 60))"
  by (simp add: sendall_def close_def init_def send_def)

section \<open>Teardown twice\<close>

text \<open>
  C1 at a concrete input. Alice's session is torn down twice, by two calls of
  \<open>_remove_client\<close> and then by the reaper followed by the \<open>finally\<close> clause of her
  handling thread. The registry is without her after the first teardown and the second
  one removes nothing, but bob is told twice that she has disconnected: the second
  teardown broadcasts again.
\<close>

theorem remove_client_twice_broadcasts_twice:
  "clients (remove_client 1 (Some (py ''alice'')) alice_and_bob) = [(2, py ''bob'')] \<and>
   usernames (remove_client 1 (Some (py ''alice'')) alice_and_bob) = [(py ''bob'', 2)] \<and>
   last_activity (remove_client 1 (Some (py ''alice'')) alice_and_bob) = [(2, 90)] \<and>
   inbox 2 (remove_client 1 (Some (py ''alice'')) alice_and_bob) =
     [py ''INFO alice disconnected'' @ [nl]] \<and>
   clients (remove_client 1 (Some (py ''alice''))
     (remove_client 1 (Some (py ''alice'')) alice_and_bob)) = [(2, py ''bob'')] \<and>
   inbox 2 (remove_client 1 (Some (py ''alice''))
     (remove_client 1 (Some (py ''alice'')) alice_and_bob)) =
     [py ''INFO alice disconnected'' @ [nl], py ''INFO alice disconnected'' @ [nl]] \<and>
   clients_to_remove 100 alice_and_bob = [(1, Some (py ''alice''))] \<and>
   inbox 2 (check_idle_round 100 alice_and_bob) = [py ''INFO alice disconnected'' @ [nl]] \<and>
   inbox 2 (remove_client 1 (Some (py ''alice'')) (check_idle_round 100 alice_and_bob)) =
     [py ''INFO alice disconnected'' @ [nl], py ''INFO alice disconnected'' @ [nl]]"
  by (simp add: alice_and_bob_def init_def py_def nl_def remove_client_def has_key_def
      close_def broadcast_def sendall_def inbox_def check_idle_round_def clients_to_remove_def
      evict_def send_def float_eval)

section \<open>The login loop and the name dictionaries\<close>

declare login_buffer.simps [simp del] process_buffer.simps [simp del]

lemma next_line_first: "nl \<notin> set raw \<Longrightarrow> next_line (raw @ nl # rest) = Some (raw, rest)"
proof -
  assume "nl \<notin> set raw"
  then have "takeWhile (\<lambda>c. c \<noteq> nl) (raw @ nl # rest) = raw"
    and "dropWhile (\<lambda>c. c \<noteq> nl) (raw @ nl # rest) = nl # rest"
    by (induction raw) auto
  then show ?thesis by (simp add: next_line_def)
qed

lemma login_line_blank: "strip raw = [] \<Longrightarrow> login_line conn raw s = (Continue, s)"
  by (simp add: login_line_def)

lemma login_line_other:
  "strip raw \<noteq> [] \<Longrightarrow> \<not> startswith (strip raw) (py ''LOGIN '') \<Longrightarrow>
     login_line conn raw s = (Continue, snd (send conn (py ''ERR must-login-first'') s))"
  by (simp add: login_line_def)

lemma login_line_taken:
  "startswith (strip raw) (py ''LOGIN '') \<Longrightarrow> strip (drop 6 (strip raw)) \<noteq> [] \<Longrightarrow>
   has_key (strip (drop 6 (strip raw))) (usernames s) \<Longrightarrow>
     login_line conn raw s = (Continue, snd (send conn (py ''ERR username-taken'') s))"
  by (auto simp: login_line_def Let_def startswith_def py_def)

lemma login_line_free:
  "startswith (strip raw) (py ''LOGIN '') \<Longrightarrow> strip (drop 6 (strip raw)) \<noteq> [] \<Longrightarrow>
   \<not> has_key (strip (drop 6 (strip raw))) (usernames s) \<Longrightarrow>
     login_line conn raw s =
       (Return (strip (drop 6 (strip raw))),
        snd (send conn (py ''OK'')
          (s\<lparr>clients := AList.update conn (strip (drop 6 (strip raw))) (clients s),
             usernames := AList.update (strip (drop 6 (strip raw))) conn (usernames s)\<rparr>)))"
  by (auto simp: login_line_def Let_def startswith_def py_def)

text \<open>What one line of the login loop does to the two name dictionaries.\<close>

lemma login_line_names:
  "login_line conn raw s = (step, s') \<Longrightarrow>
     (case step of
        Continue \<Rightarrow> clients s' = clients s \<and> usernames s' = usernames s
      | Return u \<Rightarrow> clients s' = AList.update conn u (clients s)
          \<and> usernames s' = AList.update u conn (usernames s))"
  by (auto simp: login_line_def Let_def split: if_splits)

lemma login_buffer_names:
  "login_buffer conn buffer s = (r, buffer', s') \<Longrightarrow>
     (case r of
        None \<Rightarrow> clients s' = clients s \<and> usernames s' = usernames s
      | Some u \<Rightarrow> clients s' = AList.update conn u (clients s)
          \<and> usernames s' = AList.update u conn (usernames s))"
proof (induction conn buffer s rule: login_buffer.induct)
  case (1 conn buffer s)
  show ?case
  proof (cases "next_line buffer")
    case None
    with "1.prems" show ?thesis by (simp add: login_buffer.simps)
  next
    case (Some p)
    obtain raw rest where p: "p = (raw, rest)" by (cases p)
    obtain step s1 where line: "login_line conn raw s = (step, s1)" by (cases "login_line conn raw s")
    show ?thesis
    proof (cases step)
      case Continue
      with "1.prems" Some p line have "login_buffer conn rest s1 = (r, buffer', s')"
        by (simp add: login_buffer.simps)
      with "1.IH" [OF Some p [symmetric] line [symmetric]] Continue
      have "case r of None \<Rightarrow> clients s' = clients s1 \<and> usernames s' = usernames s1
        | Some u \<Rightarrow> clients s' = AList.update conn u (clients s1)
            \<and> usernames s' = AList.update u conn (usernames s1)"
        by simp
      moreover from login_line_names [OF line] Continue
      have "clients s1 = clients s \<and> usernames s1 = usernames s" by simp
      ultimately show ?thesis by (simp split: option.splits)
    next
      case (Return u)
      with "1.prems" Some p line have "r = Some u" "s' = s1"
        by (simp_all add: login_buffer.simps)
      with login_line_names [OF line] Return show ?thesis by simp
    qed
  qed
qed

lemma touch_names [simp]:
  "clients (touch conn now s) = clients s" "usernames (touch conn now s) = usernames s"
  by (simp_all add: touch_def)

lemma handle_login_names:
  "handle_login conn buffer rs s = (r, rs', s') \<Longrightarrow>
     (case r of
        Returned (Some u) \<Rightarrow> clients s' = AList.update conn u (clients s)
          \<and> usernames s' = AList.update u conn (usernames s)
      | _ \<Rightarrow> clients s' = clients s \<and> usernames s' = usernames s)"
proof (induction rs arbitrary: buffer s)
  case Nil
  then show ?case by (auto split: if_splits)
next
  case (Cons a rs)
  show ?case
  proof (cases "running s")
    case False
    with Cons.prems show ?thesis by auto
  next
    case True
    show ?thesis
    proof (cases a)
      case Eof
      with True Cons.prems show ?thesis by auto
    next
      case (Raises e)
      with True Cons.prems Cons.IH [of buffer s] show ?thesis
        by (auto split: if_splits)
    next
      case (Data chunk now)
      obtain u b s1 where lb: "login_buffer conn (buffer @ chunk) (touch conn now s) = (u, b, s1)"
        by (cases "login_buffer conn (buffer @ chunk) (touch conn now s)")
      show ?thesis
      proof (cases u)
        case None
        with True Data lb Cons.prems have "handle_login conn b rs s1 = (r, rs', s')" by simp
        from Cons.IH [OF this] login_buffer_names [OF lb] None show ?thesis
          by (auto split: run.splits option.splits)
      next
        case (Some name)
        with True Data lb Cons.prems have "r = Returned (Some name)" "s' = s1" by simp_all
        with login_buffer_names [OF lb] Some show ?thesis by simp
      qed
    qed
  qed
qed

lemma touch_fields [simp]:
  "running (touch conn now s) = running s"
  "idle_timeout (touch conn now s) = idle_timeout s"
  "faults (touch conn now s) = faults s"
  "wire (touch conn now s) = wire s"
  "console (touch conn now s) = console s"
  by (simp_all add: touch_def)

lemma touch_last_activity: "map_of (last_activity (touch conn now s)) conn = Some now"
  by (simp add: touch_def update_conv')

lemma inbox_registry_update [simp]:
  "inbox c (s\<lparr>clients := cl\<rparr>) = inbox c s"
  "inbox c (s\<lparr>usernames := us\<rparr>) = inbox c s"
  "inbox c (s\<lparr>last_activity := la\<rparr>) = inbox c s"
  "inbox c (s\<lparr>console := co\<rparr>) = inbox c s"
  "inbox c (s\<lparr>faults := fa\<rparr>) = inbox c s"
  by (simp_all add: inbox_def)

section \<open>Trimmed lines\<close>

lemma strip_Nil_iff: "strip x = [] \<longleftrightarrow> (\<forall>c \<in> set x. isspace c)"
proof
  assume "strip x = []"
  then have "dropWhile isspace (rev (dropWhile isspace x)) = []"
    by (simp add: strip_def)
  then have all: "\<forall>c \<in> set (dropWhile isspace x). isspace c"
    by (simp add: dropWhile_eq_Nil_conv)
  have "dropWhile isspace x = []"
  proof (rule ccontr)
    assume ne: "dropWhile isspace x \<noteq> []"
    then have "\<not> isspace (hd (dropWhile isspace x))"
      by (rule hd_dropWhile)
    moreover from ne have "hd (dropWhile isspace x) \<in> set (dropWhile isspace x)"
      by (rule hd_in_set)
    ultimately show False using all by blast
  qed
  then show "\<forall>c \<in> set x. isspace c"
    by (simp add: dropWhile_eq_Nil_conv)
next
  assume "\<forall>c \<in> set x. isspace c"
  then have "dropWhile isspace x = []"
    by simp
  then have "strip x = rev (dropWhile isspace (rev []))"
    by (simp only: strip_def)
  then show "strip x = []"
    by simp
qed

lemma strip_last: "strip x \<noteq> [] \<Longrightarrow> \<not> isspace (last (strip x))"
proof -
  assume ne: "strip x \<noteq> []"
  let ?zs = "dropWhile isspace (rev (dropWhile isspace x))"
  from ne have zs: "?zs \<noteq> []" by (simp add: strip_def)
  then have "\<not> isspace (hd ?zs)" by (rule hd_dropWhile)
  moreover from zs have "last (strip x) = hd ?zs"
    by (simp add: strip_def last_rev)
  ultimately show ?thesis by simp
qed

text \<open>
  The branch of the login loop that answers \<open>ERR invalid-username\<close> is never taken: the
  line has been trimmed before the test for the prefix, so what follows the prefix does
  not end in white space, and it is not empty because the prefix itself ends in a space.
\<close>

lemma login_name_not_empty:
  assumes "startswith (strip raw) (py ''LOGIN '')"
  shows "strip (drop 6 (strip raw)) \<noteq> []"
proof -
  let ?line = "strip raw"
  have "length (py ''LOGIN '') = 6"
    by (simp add: py_def)
  with assms have prefix: "take 6 ?line = py ''LOGIN ''"
    by (simp add: startswith_def)
  then have ne: "?line \<noteq> []"
    by (auto simp: py_def)
  then have last: "\<not> isspace (last ?line)"
    by (rule strip_last)
  have "drop 6 ?line \<noteq> []"
  proof
    assume "drop 6 ?line = []"
    with prefix have "?line = py ''LOGIN ''"
      using append_take_drop_id [of 6 ?line] by simp
    then have "last ?line = 32"
      by (simp add: py_def)
    with last show False
      by (simp add: isspace_def)
  qed
  then have rest: "drop 6 ?line \<noteq> []" .
  then have "last (drop 6 ?line) \<in> set (drop 6 ?line)"
    by (rule last_in_set)
  moreover from rest have "last (drop 6 ?line) = last ?line"
    by (simp add: last_drop)
  ultimately show ?thesis
    using last by (auto simp: strip_Nil_iff)
qed

section \<open>Lines before the login\<close>

text \<open>
  C4. A line received before the login that is not empty after trimming and does not
  begin with \<open>LOGIN\<close> and a space is answered with \<open>ERR must-login-first\<close>: the loop
  goes on, the three dictionaries are what they were, and the answer is the only line
  delivered, to the connection that sent the command (when its socket takes it). The
  timestamp of the connection was stored by the read that brought the line, before the
  line is looked at; the line itself changes nothing.
\<close>

theorem login_rejects_other_commands:
  assumes "strip raw \<noteq> []" and "\<not> startswith (strip raw) (py ''LOGIN '')"
  shows "login_line conn raw s = (Continue, snd (send conn (py ''ERR must-login-first'') s)) \<and>
    clients (snd (login_line conn raw s)) = clients s \<and>
    usernames (snd (login_line conn raw s)) = usernames s \<and>
    last_activity (snd (login_line conn raw s)) = last_activity s \<and>
    (\<forall>c. inbox c (snd (login_line conn raw s)) =
       inbox c s @ (if c = conn \<and> faults s conn = None
                    then [py ''ERR must-login-first'' @ [nl]] else []))"
  using assms by (simp add: login_line_other send_inbox)

theorem login_rejects_other_commands_witness:
  "strip (py ''WHO'') \<noteq> [] \<and> \<not> startswith (strip (py ''WHO'')) (py ''LOGIN '') \<and>
   fst (login_line 3 (py ''WHO'') alice_and_bob) = Continue \<and>
   clients (snd (login_line 3 (py ''WHO'') alice_and_bob)) = [(1, py ''alice''), (2, py ''bob'')] \<and>
   usernames (snd (login_line 3 (py ''WHO'') alice_and_bob)) = [(py ''alice'', 1), (py ''bob'', 2)] \<and>
   inbox 3 (snd (login_line 3 (py ''WHO'') alice_and_bob)) = [py ''ERR must-login-first'' @ [nl]] \<and>
   inbox 1 (snd (login_line 3 (py ''WHO'') alice_and_bob)) = [] \<and>
   inbox 2 (snd (login_line 3 (py ''WHO'') alice_and_bob)) = []"
proof -
  have a: "strip (py ''WHO'') \<noteq> []"
    by (simp add: strip_def isspace_def py_def)
  have b: "\<not> startswith (strip (py ''WHO'')) (py ''LOGIN '')"
    by (simp add: strip_def isspace_def py_def startswith_def)
  have s: "clients alice_and_bob = [(1, py ''alice''), (2, py ''bob'')]"
    "usernames alice_and_bob = [(py ''alice'', 1), (py ''bob'', 2)]"
    "faults alice_and_bob 3 = None" "inbox 1 alice_and_bob = []" "inbox 2 alice_and_bob = []"
    "inbox 3 alice_and_bob = []"
    by (simp_all add: alice_and_bob_def init_def inbox_def)
  from login_rejects_other_commands [OF a b, of 3 alice_and_bob] a b s
  show ?thesis by (elim conjE) simp
qed

text \<open>
  The login loop tests a name against the dictionary \<open>usernames\<close>. For a line that
  begins with \<open>LOGIN\<close> and a space and names a non-empty trimmed name: when the name
  is a key of \<open>usernames\<close> the answer is
  \<open>ERR username-taken\<close>, the loop goes on and the three dictionaries are unchanged.
  Otherwise the same step that made the check binds the name in both dictionaries, the
  answer is \<open>OK\<close>, and the loop returns the name: the connection is logged in.
\<close>

theorem login_binds_a_free_name:
  assumes "startswith (strip raw) (py ''LOGIN '')"
    and "name = strip (drop 6 (strip raw))"
    and "name \<noteq> []"
  shows "(has_key name (usernames s) \<longrightarrow>
       login_line conn raw s = (Continue, snd (send conn (py ''ERR username-taken'') s)) \<and>
       clients (snd (login_line conn raw s)) = clients s \<and>
       usernames (snd (login_line conn raw s)) = usernames s \<and>
       last_activity (snd (login_line conn raw s)) = last_activity s \<and>
       (\<forall>c. inbox c (snd (login_line conn raw s)) =
          inbox c s @ (if c = conn \<and> faults s conn = None
                       then [py ''ERR username-taken'' @ [nl]] else []))) \<and>
    (\<not> has_key name (usernames s) \<longrightarrow>
       fst (login_line conn raw s) = Return name \<and>
       clients (snd (login_line conn raw s)) = AList.update conn name (clients s) \<and>
       usernames (snd (login_line conn raw s)) = AList.update name conn (usernames s) \<and>
       last_activity (snd (login_line conn raw s)) = last_activity s \<and>
       (\<forall>c. inbox c (snd (login_line conn raw s)) =
          inbox c s @ (if c = conn \<and> faults s conn = None then [py ''OK'' @ [nl]] else [])))"
proof (cases "has_key name (usernames s)")
  case True
  with assms show ?thesis by (simp add: login_line_taken send_inbox)
next
  case False
  with assms show ?thesis by (simp add: login_line_free send_inbox)
qed

theorem login_binds_a_free_name_witness:
  "startswith (strip (py ''LOGIN bob'')) (py ''LOGIN '') \<and>
   has_key (py ''bob'') (usernames alice_and_bob) \<and>
   fst (login_line 3 (py ''LOGIN bob'') alice_and_bob) = Continue \<and>
   clients (snd (login_line 3 (py ''LOGIN bob'') alice_and_bob)) = clients alice_and_bob \<and>
   usernames (snd (login_line 3 (py ''LOGIN bob'') alice_and_bob)) = usernames alice_and_bob \<and>
   inbox 3 (snd (login_line 3 (py ''LOGIN bob'') alice_and_bob)) = [py ''ERR username-taken'' @ [nl]] \<and>
   startswith (strip (py ''LOGIN carol'')) (py ''LOGIN '') \<and>
   \<not> has_key (py ''carol'') (usernames alice_and_bob) \<and>
   fst (login_line 3 (py ''LOGIN carol'') alice_and_bob) = Return (py ''carol'') \<and>
   clients (snd (login_line 3 (py ''LOGIN carol'') alice_and_bob)) =
     [(1, py ''alice''), (2, py ''bob''), (3, py ''carol'')] \<and>
   usernames (snd (login_line 3 (py ''LOGIN carol'') alice_and_bob)) =
     [(py ''alice'', 1), (py ''bob'', 2), (py ''carol'', 3)] \<and>
   inbox 3 (snd (login_line 3 (py ''LOGIN carol'') alice_and_bob)) = [py ''OK'' @ [nl]]"
proof -
  have b1: "startswith (strip (py ''LOGIN bob'')) (py ''LOGIN '')"
    and b2: "py ''bob'' = strip (drop 6 (strip (py ''LOGIN bob'')))"
    and b3: "py ''bob'' \<noteq> []"
    and c1: "startswith (strip (py ''LOGIN carol'')) (py ''LOGIN '')"
    and c2: "py ''carol'' = strip (drop 6 (strip (py ''LOGIN carol'')))"
    and c3: "py ''carol'' \<noteq> []"
    by (simp_all add: strip_def isspace_def py_def startswith_def)
  have s: "has_key (py ''bob'') (usernames alice_and_bob)"
    "\<not> has_key (py ''carol'') (usernames alice_and_bob)"
    "clients alice_and_bob = [(1, py ''alice''), (2, py ''bob'')]"
    "usernames alice_and_bob = [(py ''alice'', 1), (py ''bob'', 2)]"
    "faults alice_and_bob 3 = None" "inbox 3 alice_and_bob = []"
    by (simp_all add: alice_and_bob_def init_def inbox_def has_key_def py_def)
  have ne: "py ''carol'' \<noteq> py ''alice''" "py ''carol'' \<noteq> py ''bob''"
    by (simp_all add: py_def)
  note bob = login_binds_a_free_name
    [OF b1 b2 b3, of alice_and_bob 3, THEN conjunct1, THEN mp, OF s(1)]
  note carol = login_binds_a_free_name
    [OF c1 c2 c3, of alice_and_bob 3, THEN conjunct2, THEN mp, OF s(2)]
  from bob carol b1 c1 s ne show ?thesis by (elim conjE) simp
qed

text \<open>
  C9. A line that is the bare word \<open>LOGIN\<close> after trimming is answered with
  \<open>ERR must-login-first\<close> (and with nothing else) and binds no name; whenever the
  login loop returns a name, the trimmed line began with \<open>LOGIN\<close> and a space.
\<close>

theorem bare_login_is_not_a_login_attempt:
  "(strip raw = py ''LOGIN'' \<longrightarrow>
      login_line conn raw s = (Continue, snd (send conn (py ''ERR must-login-first'') s)) \<and>
      clients (snd (login_line conn raw s)) = clients s \<and>
      usernames (snd (login_line conn raw s)) = usernames s \<and>
      (\<forall>c. inbox c (snd (login_line conn raw s)) =
         inbox c s @ (if c = conn \<and> faults s conn = None
                      then [py ''ERR must-login-first'' @ [nl]] else []))) \<and>
   (\<forall>name. fst (login_line conn raw s) = Return name \<longrightarrow>
      startswith (strip raw) (py ''LOGIN ''))"
proof -
  have "py ''LOGIN'' \<noteq> []" and "\<not> startswith (py ''LOGIN'') (py ''LOGIN '')"
    by (simp_all add: py_def startswith_def)
  then have "strip raw = py ''LOGIN'' \<Longrightarrow>
      login_line conn raw s = (Continue, snd (send conn (py ''ERR must-login-first'') s))"
    by (simp add: login_line_other)
  moreover have "fst (login_line conn raw s) = Return name \<Longrightarrow>
      startswith (strip raw) (py ''LOGIN '')" for name
    by (auto simp: login_line_def Let_def split: if_splits)
  ultimately show ?thesis by (simp add: send_inbox)
qed

theorem bare_login_is_not_a_login_attempt_witness:
  "strip (sp # py ''LOGIN'' @ [13]) = py ''LOGIN'' \<and>
   fst (login_line 3 (sp # py ''LOGIN'' @ [13]) alice_and_bob) = Continue \<and>
   clients (snd (login_line 3 (sp # py ''LOGIN'' @ [13]) alice_and_bob)) = clients alice_and_bob \<and>
   usernames (snd (login_line 3 (sp # py ''LOGIN'' @ [13]) alice_and_bob)) = usernames alice_and_bob \<and>
   inbox 3 (snd (login_line 3 (sp # py ''LOGIN'' @ [13]) alice_and_bob)) =
     [py ''ERR must-login-first'' @ [nl]] \<and>
   fst (login_line 3 (py ''LOGIN carol'') alice_and_bob) = Return (py ''carol'') \<and>
   startswith (strip (py ''LOGIN carol'')) (py ''LOGIN '')"
proof -
  have a: "strip (sp # py ''LOGIN'' @ [13]) = py ''LOGIN''"
    by (simp add: strip_def isspace_def py_def sp_def)
  have b: "fst (login_line 3 (py ''LOGIN carol'') alice_and_bob) = Return (py ''carol'')"
    by (simp add: login_line_def strip_def isspace_def py_def startswith_def has_key_def
        alice_and_bob_def init_def Let_def)
  have s: "faults alice_and_bob 3 = None" "inbox 3 alice_and_bob = []"
    by (simp_all add: alice_and_bob_def init_def inbox_def)
  note bare = bare_login_is_not_a_login_attempt
    [of "sp # py ''LOGIN'' @ [13]" 3 alice_and_bob, THEN conjunct1, THEN mp, OF a]
  note carol = bare_login_is_not_a_login_attempt
    [of "py ''LOGIN carol''" 3 alice_and_bob, THEN conjunct2, THEN spec, THEN mp, OF b]
  from bare carol a b s show ?thesis by (elim conjE) simp
qed

section \<open>Blank lines\<close>

lemma login_buffer_blank:
  "nl \<notin> set raw \<Longrightarrow> strip raw = [] \<Longrightarrow>
     login_buffer conn (raw @ nl # rest) s = login_buffer conn rest s"
  by (subst login_buffer.simps) (simp add: next_line_first login_line_blank)

lemma process_buffer_blank:
  "nl \<notin> set raw \<Longrightarrow> strip raw = [] \<Longrightarrow>
     process_buffer conn username (raw @ nl # rest) s = process_buffer conn username rest s"
  by (subst process_buffer.simps) (simp add: next_line_first)

lemma next_line_Nil: "next_line [] = None"
  by (simp add: next_line_def)

text \<open>
  C10. A line that is empty after trimming is skipped by both inner loops: the rest of
  the buffer is processed as if the line had not been there. When the read that brought
  it holds nothing else, what is left of that read, before and after the login, is the
  new timestamp of the connection: nothing is sent and no dictionary of names changes.
\<close>

theorem blank_line_is_skipped:
  assumes "nl \<notin> set raw" and "strip raw = []" and "running s"
  shows "login_buffer conn (raw @ nl # rest) s = login_buffer conn rest s \<and>
    process_buffer conn username (raw @ nl # rest) s = process_buffer conn username rest s \<and>
    (buffer @ chunk = raw @ [nl] \<longrightarrow>
       handle_login conn buffer (Data chunk now # rs) s =
         handle_login conn [] rs (touch conn now s) \<and>
       message_loop conn username buffer (Data chunk now # rs) s =
         message_loop conn username [] rs (touch conn now s)) \<and>
    map_of (last_activity (touch conn now s)) conn = Some now \<and>
    wire (touch conn now s) = wire s \<and>
    clients (touch conn now s) = clients s \<and>
    usernames (touch conn now s) = usernames s"
proof -
  have "login_buffer conn (raw @ [nl]) (touch conn now s) = (None, [], touch conn now s)"
    using assms login_buffer_blank [of raw conn "[]" "touch conn now s"]
    by (simp add: login_buffer.simps [of conn "[]"] next_line_Nil)
  moreover
  have "process_buffer conn username (raw @ [nl]) (touch conn now s) = ([], touch conn now s)"
    using assms process_buffer_blank [of raw conn username "[]" "touch conn now s"]
    by (simp add: process_buffer.simps [of conn username "[]"] next_line_Nil)
  ultimately show ?thesis
    using assms by (simp add: login_buffer_blank process_buffer_blank touch_last_activity)
qed

theorem blank_line_is_skipped_witness:
  "nl \<notin> set [sp, 9, 13] \<and> strip [sp, 9, 13] = [] \<and> running alice_and_bob \<and>
   handle_login 3 [sp] [Data [9, 13, nl] 95] alice_and_bob =
     (Blocked [], [], touch 3 95 alice_and_bob) \<and>
   message_loop 1 (py ''alice'') [sp] [Data [9, 13, nl] 95] alice_and_bob =
     (Blocked [], touch 1 95 alice_and_bob) \<and>
   map_of (last_activity (touch 1 95 alice_and_bob)) 1 = Some 95 \<and>
   wire (touch 1 95 alice_and_bob) = [] \<and>
   map_of (last_activity (touch 3 95 alice_and_bob)) 3 = Some 95 \<and>
   wire (touch 3 95 alice_and_bob) = []"
proof -
  have a: "nl \<notin> set [sp, 9, 13]" and b: "strip [sp, 9, 13] = []"
    by (simp_all add: nl_def sp_def strip_def isspace_def)
  have c: "running alice_and_bob" and w: "wire alice_and_bob = []"
    by (simp_all add: alice_and_bob_def init_def)
  have d: "[sp] @ [9, 13, nl] = [sp, 9, 13] @ [nl]"
    by simp
  note login = blank_line_is_skipped [OF a b c, of 3 "[]" "py ''alice''" "[sp]" "[9, 13, nl]" 95 "[]"]
  note loop = blank_line_is_skipped [OF a b c, of 1 "[]" "py ''alice''" "[sp]" "[9, 13, nl]" 95 "[]"]
  from login loop a b c d w show ?thesis by simp
qed

section \<open>From accept to login\<close>

text \<open>
  C2. A connection that has just been accepted (its socket is no key of \<open>clients\<close>)
  has an entry in \<open>last_activity\<close> and no username before the first line is read.
  Whatever is read then, the connection has a name in \<open>clients\<close> exactly when
  \<open>_handle_login\<close> has returned that name.
\<close>

theorem accepted_session_is_unnamed_until_login:
  assumes "\<not> has_key conn (clients s)"
    and "handle_login conn [] rs (accepted conn now s) = (r, rs', s')"
  shows "has_key conn (last_activity (accepted conn now s)) \<and>
    map_of (clients (accepted conn now s)) conn = None \<and>
    map_of (clients s') conn = (case r of Returned (Some username) \<Rightarrow> Some username | _ \<Rightarrow> None)"
proof -
  have fresh: "map_of (clients s) conn = None"
    using assms(1) by (simp add: has_key_map_of)
  have "has_key conn (last_activity (accepted conn now s))"
    by (simp add: accepted_def touch_def has_key_update)
  moreover have "map_of (clients (accepted conn now s)) conn = None"
    using fresh by (simp add: accepted_def)
  moreover have "map_of (clients s') conn =
      (case r of Returned (Some username) \<Rightarrow> Some username | _ \<Rightarrow> None)"
    using handle_login_names [OF assms(2)] fresh
    by (auto simp: accepted_def update_conv' split: run.splits option.splits)
  ultimately show ?thesis by simp
qed

theorem accepted_session_is_unnamed_until_login_witness:
  "\<not> has_key 3 (clients alice_and_bob) \<and>
   has_key 3 (last_activity (accepted 3 95 alice_and_bob)) \<and>
   map_of (clients (accepted 3 95 alice_and_bob)) 3 = None \<and>
   fst (handle_login 3 [] [Data (py ''WHO'' @ [nl]) 96] (accepted 3 95 alice_and_bob)) = Blocked [] \<and>
   map_of (clients (snd (snd
     (handle_login 3 [] [Data (py ''WHO'' @ [nl]) 96] (accepted 3 95 alice_and_bob))))) 3 = None \<and>
   fst (handle_login 3 [] [Data (py ''WHO'' @ [nl]) 96, Data (py ''LOGIN carol'' @ [nl]) 97]
     (accepted 3 95 alice_and_bob)) = Returned (Some (py ''carol'')) \<and>
   map_of (clients (snd (snd
     (handle_login 3 [] [Data (py ''WHO'' @ [nl]) 96, Data (py ''LOGIN carol'' @ [nl]) 97]
        (accepted 3 95 alice_and_bob))))) 3 = Some (py ''carol'')"
proof -
  have fresh: "\<not> has_key 3 (clients alice_and_bob)"
    by (simp add: alice_and_bob_def init_def has_key_def)
  have waiting: "fst (handle_login 3 [] [Data (py ''WHO'' @ [nl]) 96]
      (accepted 3 95 alice_and_bob)) = Blocked []"
    by (simp add: accepted_def touch_def alice_and_bob_def init_def py_def nl_def
        login_buffer.simps next_line_def login_line_def strip_def isspace_def startswith_def
        has_key_def Let_def)
  have named: "fst (handle_login 3 [] [Data (py ''WHO'' @ [nl]) 96, Data (py ''LOGIN carol'' @ [nl]) 97]
      (accepted 3 95 alice_and_bob)) = Returned (Some (py ''carol''))"
    by (simp add: accepted_def touch_def alice_and_bob_def init_def py_def nl_def
        login_buffer.simps next_line_def login_line_def strip_def isspace_def startswith_def
        has_key_def Let_def)
  obtain r1 rs1 s1 where one: "handle_login 3 [] [Data (py ''WHO'' @ [nl]) 96]
      (accepted 3 95 alice_and_bob) = (r1, rs1, s1)"
    by (rule prod_cases3)
  obtain r2 rs2 s2 where two: "handle_login 3 []
      [Data (py ''WHO'' @ [nl]) 96, Data (py ''LOGIN carol'' @ [nl]) 97]
      (accepted 3 95 alice_and_bob) = (r2, rs2, s2)"
    by (rule prod_cases3)
  from waiting one have r1: "r1 = Blocked []" by simp
  from named two have r2: "r2 = Returned (Some (py ''carol''))" by simp
  from accepted_session_is_unnamed_until_login [OF fresh one] r1
  have "has_key 3 (last_activity (accepted 3 95 alice_and_bob))"
    and "map_of (clients (accepted 3 95 alice_and_bob)) 3 = None"
    and "map_of (clients s1) 3 = None"
    by simp_all
  moreover from accepted_session_is_unnamed_until_login [OF fresh two] r2
  have "map_of (clients s2) 3 = Some (py ''carol'')"
    by simp
  ultimately show ?thesis
    using fresh waiting named one two by simp
qed

section \<open>Messages of a logged-in user\<close>

lemma strip_id: "x \<noteq> [] \<Longrightarrow> \<not> isspace (hd x) \<Longrightarrow> \<not> isspace (last x) \<Longrightarrow> strip x = x"
proof -
  assume x: "x \<noteq> []" and h: "\<not> isspace (hd x)" and l: "\<not> isspace (last x)"
  from x h have "dropWhile isspace x = x"
    by (cases x) simp_all
  moreover from x l have "dropWhile isspace (rev x) = rev x"
    by (cases "rev x") (simp_all add: last_rev [symmetric] hd_rev)
  ultimately show ?thesis by (simp add: strip_def)
qed

lemma split1_first: "sep \<notin> set a \<Longrightarrow> split1 sep (a @ sep # b) = [a, b]"
proof -
  assume "sep \<notin> set a"
  then have "takeWhile (\<lambda>c. c \<noteq> sep) (a @ sep # b) = a"
    and "dropWhile (\<lambda>c. c \<noteq> sep) (a @ sep # b) = sep # b"
    by (induction a) auto
  then show ?thesis by (simp add: split1_def)
qed

text \<open>
  C5. A logged-in user sends a line that begins with \<open>MSG\<close> and a space. The
  connected clients are the keys of \<open>clients\<close>, each of them once. When the
  trimmed text is not empty, every one of them other than the sender whose socket takes
  the line gets \<open>MSG username text\<close> exactly once, and nobody else gets anything: not
  the sender, and not a connection that is no key of \<open>clients\<close>. When the trimmed
  text is empty the state is left as it was.
\<close>

theorem msg_is_broadcast_to_the_others:
  assumes "distinct (map fst (clients s))" and "startswith line (py ''MSG '')"
  shows "(strip (drop 4 line) \<noteq> [] \<longrightarrow>
      (\<forall>c. inbox c (process_command conn username line s) =
         inbox c s @ (if has_key c (clients s) \<and> c \<noteq> conn \<and> faults s c = None
                      then [py ''MSG '' @ username @ [sp] @ strip (drop 4 line) @ [nl]]
                      else []))) \<and>
    (strip (drop 4 line) = [] \<longrightarrow> process_command conn username line s = s)"
  using assms by (auto simp: process_command_def broadcast_inbox)

theorem msg_is_broadcast_to_the_others_witness:
  "distinct (map fst (clients (snd (login_line 3 (py ''LOGIN carol'') alice_and_bob)))) \<and>
   startswith (py ''MSG hello'') (py ''MSG '') \<and> strip (drop 4 (py ''MSG hello'')) = py ''hello'' \<and>
   inbox 1 (process_command 1 (py ''alice'') (py ''MSG hello'')
     (snd (login_line 3 (py ''LOGIN carol'') alice_and_bob))) = [] \<and>
   inbox 2 (process_command 1 (py ''alice'') (py ''MSG hello'')
     (snd (login_line 3 (py ''LOGIN carol'') alice_and_bob))) = [py ''MSG alice hello'' @ [nl]] \<and>
   inbox 3 (process_command 1 (py ''alice'') (py ''MSG hello'')
     (snd (login_line 3 (py ''LOGIN carol'') alice_and_bob))) =
     [py ''OK'' @ [nl], py ''MSG alice hello'' @ [nl]] \<and>
   startswith (py ''MSG '') (py ''MSG '') \<and> strip (drop 4 (py ''MSG '')) = [] \<and>
   process_command 1 (py ''alice'') (py ''MSG '') alice_and_bob = alice_and_bob"
proof -
  have st: "clients (snd (login_line 3 (py ''LOGIN carol'') alice_and_bob)) =
      [(1, py ''alice''), (2, py ''bob''), (3, py ''carol'')]"
    "faults (snd (login_line 3 (py ''LOGIN carol'') alice_and_bob)) = (\<lambda>_. None)"
    "wire (snd (login_line 3 (py ''LOGIN carol'') alice_and_bob)) = [(3, py ''OK'' @ [nl])]"
    by (simp_all add: login_line_def strip_def isspace_def py_def startswith_def has_key_def
        alice_and_bob_def init_def Let_def send_wire)
  have d: "distinct (map fst (clients (snd (login_line 3 (py ''LOGIN carol'') alice_and_bob))))"
    and d0: "distinct (map fst (clients alice_and_bob))"
    by (simp_all add: st) (simp add: alice_and_bob_def init_def)
  have m: "startswith (py ''MSG hello'') (py ''MSG '')"
    and t: "strip (drop 4 (py ''MSG hello'')) = py ''hello''"
    and m0: "startswith (py ''MSG '') (py ''MSG '')"
    and t0: "strip (drop 4 (py ''MSG '')) = []"
    by (simp_all add: startswith_def strip_def isspace_def py_def)
  have ne: "py ''hello'' \<noteq> []" by (simp add: py_def)
  have lit: "py ''MSG '' @ py ''alice'' @ [sp] @ py ''hello'' = py ''MSG alice hello''"
    by (simp add: py_def sp_def)
  note sent = msg_is_broadcast_to_the_others [OF d m, of 1 "py ''alice''", THEN conjunct1,
    THEN mp, unfolded t, OF ne]
  note quiet = msg_is_broadcast_to_the_others [OF d0 m0, of 1 "py ''alice''", THEN conjunct2,
    THEN mp, OF t0]
  have "inbox 1 (snd (login_line 3 (py ''LOGIN carol'') alice_and_bob)) = []"
    "inbox 2 (snd (login_line 3 (py ''LOGIN carol'') alice_and_bob)) = []"
    "inbox 3 (snd (login_line 3 (py ''LOGIN carol'') alice_and_bob)) = [py ''OK'' @ [nl]]"
    by (simp_all add: inbox_def st)
  with sent quiet d m t m0 t0 lit [symmetric] show ?thesis
    by (simp add: st has_key_def)
qed

text \<open>
  \<open>_send_private\<close> looks the target up in the dictionary \<open>usernames\<close>. It delivers
  \<open>DM sender text\<close> to the connection that \<open>usernames\<close>
  holds for the target and to nobody else; when the target is no key of \<open>usernames\<close>
  the sender gets \<open>ERR user-not-found target\<close> and nobody else gets anything. The
  dictionaries of names are unchanged. A line \<open>DM target text\<close> whose target holds no
  space is handed to \<open>_send_private\<close> with that target and that text.
\<close>

theorem dm_goes_to_the_target_only:
  "(\<forall>target_conn. map_of (usernames s) to_user = Some target_conn \<longrightarrow>
      (\<forall>c. inbox c (send_private sender_conn from_user to_user body s) =
         inbox c s @ (if c = target_conn \<and> faults s target_conn = None
                      then [py ''DM '' @ from_user @ [sp] @ body @ [nl]] else []))) \<and>
   (\<not> has_key to_user (usernames s) \<longrightarrow>
      (\<forall>c. inbox c (send_private sender_conn from_user to_user body s) =
         inbox c s @ (if c = sender_conn \<and> faults s sender_conn = None
                      then [py ''ERR user-not-found '' @ to_user @ [nl]] else []))) \<and>
   clients (send_private sender_conn from_user to_user body s) = clients s \<and>
   usernames (send_private sender_conn from_user to_user body s) = usernames s \<and>
   (to_user \<noteq> [] \<and> sp \<notin> set to_user \<and> \<not> isspace (hd to_user) \<and>
    body \<noteq> [] \<and> \<not> isspace (last body) \<longrightarrow>
      process_command sender_conn from_user (py ''DM '' @ to_user @ [sp] @ body) s =
        send_private sender_conn from_user to_user body s)"
proof -
  have route: "\<forall>c. inbox c (send_private sender_conn from_user to_user body s) =
         inbox c s @ (if c = target_conn \<and> faults s target_conn = None
                      then [py ''DM '' @ from_user @ [sp] @ body @ [nl]] else [])"
    if "map_of (usernames s) to_user = Some target_conn" for target_conn
    using that by (simp add: send_private_def send_inbox)
  have absent: "\<forall>c. inbox c (send_private sender_conn from_user to_user body s) =
         inbox c s @ (if c = sender_conn \<and> faults s sender_conn = None
                      then [py ''ERR user-not-found '' @ to_user @ [nl]] else [])"
    if "\<not> has_key to_user (usernames s)"
    using that by (simp add: send_private_def send_inbox has_key_map_of)
  have registry: "clients (send_private sender_conn from_user to_user body s) = clients s"
    "usernames (send_private sender_conn from_user to_user body s) = usernames s"
    by (simp_all add: send_private_def split: option.splits)
  have parse: "process_command sender_conn from_user (py ''DM '' @ to_user @ [sp] @ body) s =
        send_private sender_conn from_user to_user body s"
    if "to_user \<noteq> []" "sp \<notin> set to_user" "\<not> isspace (hd to_user)"
      "body \<noteq> []" "\<not> isspace (last body)"
  proof -
    have "strip (to_user @ sp # body) = to_user @ sp # body"
      using that by (intro strip_id) simp_all
    moreover have "\<not> startswith (py ''DM '' @ to_user @ [sp] @ body) (py ''MSG '')"
      and "py ''DM '' @ to_user @ [sp] @ body \<noteq> py ''WHO''"
      and "startswith (py ''DM '' @ to_user @ [sp] @ body) (py ''DM '')"
      and "drop 3 (py ''DM '' @ to_user @ [sp] @ body) = to_user @ sp # body"
      by (simp_all add: startswith_def py_def)
    ultimately show ?thesis
      using that by (simp add: process_command_def split1_first)
  qed
  from route absent registry parse show ?thesis by blast
qed

theorem dm_goes_to_the_target_only_witness:
  "map_of (usernames alice_and_bob) (py ''bob'') = Some 2 \<and>
   inbox 2 (send_private 1 (py ''alice'') (py ''bob'') (py ''hi'') alice_and_bob) =
     [py ''DM alice hi'' @ [nl]] \<and>
   inbox 1 (send_private 1 (py ''alice'') (py ''bob'') (py ''hi'') alice_and_bob) = [] \<and>
   \<not> has_key (py ''carol'') (usernames alice_and_bob) \<and>
   inbox 1 (send_private 1 (py ''alice'') (py ''carol'') (py ''hi'') alice_and_bob) =
     [py ''ERR user-not-found carol'' @ [nl]] \<and>
   inbox 2 (send_private 1 (py ''alice'') (py ''carol'') (py ''hi'') alice_and_bob) = [] \<and>
   process_command 1 (py ''alice'') (py ''DM bob hi'') alice_and_bob =
     send_private 1 (py ''alice'') (py ''bob'') (py ''hi'') alice_and_bob"
proof -
  have bob: "map_of (usernames alice_and_bob) (py ''bob'') = Some 2"
    and carol: "\<not> has_key (py ''carol'') (usernames alice_and_bob)"
    by (simp_all add: alice_and_bob_def init_def py_def has_key_def)
  have st: "faults alice_and_bob = (\<lambda>_. None)" "inbox 1 alice_and_bob = []"
    "inbox 2 alice_and_bob = []"
    by (simp_all add: alice_and_bob_def init_def inbox_def)
  have shape: "py ''bob'' \<noteq> [] \<and> sp \<notin> set (py ''bob'') \<and> \<not> isspace (hd (py ''bob'')) \<and>
      py ''hi'' \<noteq> [] \<and> \<not> isspace (last (py ''hi''))"
    by (simp add: py_def sp_def isspace_def)
  have lit: "py ''DM '' @ py ''alice'' @ [sp] @ py ''hi'' = py ''DM alice hi''"
    "py ''ERR user-not-found '' @ py ''carol'' = py ''ERR user-not-found carol''"
    "py ''DM '' @ py ''bob'' @ [sp] @ py ''hi'' = py ''DM bob hi''"
    by (simp_all add: py_def sp_def)
  note to_bob = dm_goes_to_the_target_only
    [of alice_and_bob "py ''bob''" 1 "py ''alice''" "py ''hi''",
     THEN conjunct1, THEN spec, THEN mp, OF bob]
  note to_carol = dm_goes_to_the_target_only
    [of alice_and_bob "py ''carol''" 1 "py ''alice''" "py ''hi''",
     THEN conjunct2, THEN conjunct1, THEN mp, OF carol]
  note parsed = dm_goes_to_the_target_only
    [of alice_and_bob "py ''bob''" 1 "py ''alice''" "py ''hi''",
     THEN conjunct2, THEN conjunct2, THEN conjunct2, THEN conjunct2, THEN mp, OF shape,
     unfolded lit]
  from to_bob to_carol parsed bob carol st lit [symmetric] show ?thesis
    by simp
qed

section \<open>The round of the idle reaper\<close>

lemma remove_client_clients:
  "clients (remove_client conn username s) = AList.delete conn (clients s)"
  by (simp add: remove_client_def Let_def close_def has_key_def split: option.splits)

lemma remove_client_last_activity:
  "last_activity (remove_client conn username s) = AList.delete conn (last_activity s)"
  by (simp add: remove_client_def Let_def close_def has_key_def split: option.splits)

lemma remove_client_faults:
  "faults (remove_client conn username s) = (faults s)(conn \<mapsto> OSError)"
  by (simp add: remove_client_def Let_def close_def split: option.splits)

lemma remove_client_inbox:
  assumes "distinct (map fst (clients s))"
  shows "inbox c (remove_client conn username s) =
     inbox c s @ (if has_key c (clients s) \<and> c \<noteq> conn \<and> faults s c = None
                  then disconnect_notices [(conn, username)] else [])"
proof -
  have d: "distinct (map fst (AList.delete conn (clients s)))"
    using assms by (rule distinct_delete)
  show ?thesis
  proof (cases "\<exists>u. username = Some u \<and> u \<noteq> []")
    case False
    then have "wire (remove_client conn username s) = wire s"
      by (auto simp: remove_client_def Let_def close_def split: option.splits)
    with False show ?thesis
      by (auto simp: inbox_def disconnect_notices_def split: option.splits)
  next
    case True
    then obtain u where u: "username = Some u" "u \<noteq> []" by blast
    define s1 where "s1 = (if has_key conn (clients s)
        then s\<lparr>clients := AList.delete conn (clients s)\<rparr> else s)"
    define s2 where "s2 = (if has_key u (usernames s1)
        then s1\<lparr>usernames := AList.delete u (usernames s1)\<rparr> else s1)"
    define s3 where "s3 = (if has_key conn (last_activity s2)
        then s2\<lparr>last_activity := AList.delete conn (last_activity s2)\<rparr> else s2)"
    define before where "before = (close conn s3)\<lparr>console := console s3 @ [User_disconnected u]\<rparr>"
    have unfold: "remove_client conn (Some u) s =
        broadcast (py ''INFO '' @ u @ py '' disconnected'') None before"
      using u by (simp add: before_def s3_def s2_def s1_def remove_client_def Let_def close_def)
    have "clients s1 = AList.delete conn (clients s)" and "faults s1 = faults s"
      and "inbox c s1 = inbox c s"
      by (simp_all add: s1_def has_key_def)
    then have "clients s2 = AList.delete conn (clients s)" and "faults s2 = faults s"
      and "inbox c s2 = inbox c s"
      by (simp_all add: s2_def)
    then have "clients s3 = AList.delete conn (clients s)" and "faults s3 = faults s"
      and "inbox c s3 = inbox c s"
      by (simp_all add: s3_def)
    then have "clients before = AList.delete conn (clients s)"
      and "faults before = (faults s)(conn \<mapsto> OSError)"
      and "inbox c before = inbox c s"
      by (simp_all add: before_def close_def)
    then show ?thesis
      using d u by (simp add: unfold broadcast_inbox has_key_delete disconnect_notices_def)
  qed
qed

lemma evict_clients: "clients (evict conn username s) = AList.delete conn (clients s)"
  by (simp add: evict_def remove_client_clients split: option.splits)

lemma evict_last_activity:
  "last_activity (evict conn username s) = AList.delete conn (last_activity s)"
  by (simp add: evict_def remove_client_last_activity split: option.splits)

lemma evict_faults: "faults (evict conn username s) = (faults s)(conn \<mapsto> OSError)"
  by (simp add: evict_def remove_client_faults split: option.splits)

text \<open>
  What one removal by the reaper delivers: the notice to the removed connection when it has
  a name, then the line about it to every other connected client.
\<close>

lemma evict_inbox:
  assumes "distinct (map fst (clients s))"
  shows "inbox c (evict conn username s) =
     inbox c s @
     (if c = conn \<and> faults s conn = None \<and> (\<exists>u. username = Some u \<and> u \<noteq> [])
      then [py ''ERR idle-timeout'' @ [nl]] else []) @
     (if has_key c (clients s) \<and> c \<noteq> conn \<and> faults s c = None
      then disconnect_notices [(conn, username)] else [])"
  using assms
  by (auto simp: evict_def remove_client_inbox send_inbox disconnect_notices_def
      split: option.splits)

lemma remove_idle_has_key_clients:
  "has_key c (clients (remove_idle xs s)) \<longleftrightarrow> has_key c (clients s) \<and> c \<notin> fst ` set xs"
  by (induction xs s rule: remove_idle.induct) (auto simp: evict_clients has_key_delete)

lemma remove_idle_has_key_last_activity:
  "has_key c (last_activity (remove_idle xs s)) \<longleftrightarrow>
     has_key c (last_activity s) \<and> c \<notin> fst ` set xs"
  by (induction xs s rule: remove_idle.induct) (auto simp: evict_last_activity has_key_delete)

lemma remove_idle_faults:
  "faults (remove_idle xs s) c = (if c \<in> fst ` set xs then Some OSError else faults s c)"
  by (induction xs s rule: remove_idle.induct) (auto simp: evict_faults)

lemma remove_client_usernames:
  "usernames (remove_client conn username s) =
     (case username of
        None \<Rightarrow> usernames s
      | Some u \<Rightarrow> if u \<noteq> [] then AList.delete u (usernames s) else usernames s)"
  by (simp add: remove_client_def Let_def close_def has_key_def split: option.splits)

lemma evict_usernames:
  "usernames (evict conn username s) =
     (case username of
        None \<Rightarrow> usernames s
      | Some u \<Rightarrow> if u \<noteq> [] then AList.delete u (usernames s) else usernames s)"
  by (simp add: evict_def remove_client_usernames split: option.splits)

lemma remove_idle_clients:
  "map_of (clients (remove_idle xs s)) c =
     (if c \<in> fst ` set xs then None else map_of (clients s) c)"
  by (induction xs s rule: remove_idle.induct) (auto simp: evict_clients delete_conv')

lemma remove_idle_last_activity:
  "map_of (last_activity (remove_idle xs s)) c =
     (if c \<in> fst ` set xs then None else map_of (last_activity s) c)"
  by (induction xs s rule: remove_idle.induct) (auto simp: evict_last_activity delete_conv')

lemma remove_idle_usernames:
  "map_of (usernames (remove_idle xs s)) u =
     (if u \<noteq> [] \<and> (\<exists>conn. (conn, Some u) \<in> set xs) then None else map_of (usernames s) u)"
  by (induction xs s rule: remove_idle.induct)
    (auto simp: evict_usernames delete_conv' split: option.splits)

lemma disconnect_notices_Nil [simp]: "disconnect_notices [] = []"
  by (simp add: disconnect_notices_def)

lemma remove_idle_inbox:
  assumes "distinct (map fst xs)" and "distinct (map fst (clients s))"
    and "\<forall>(conn, username) \<in> set xs. map_of (clients s) conn = username"
  shows "inbox c (remove_idle xs s) =
     inbox c s @
     (if has_key c (clients s) \<and> faults s c = None
      then disconnect_notices (takeWhile (\<lambda>x. fst x \<noteq> c) xs) @
        (if c \<in> fst ` set xs \<and> (\<exists>u. map_of (clients s) c = Some u \<and> u \<noteq> [])
         then [py ''ERR idle-timeout'' @ [nl]] else [])
      else [])"
  using assms
proof (induction xs arbitrary: s)
  case Nil
  then show ?case by simp
next
  case (Cons x xs)
  obtain conn username where x: "x = (conn, username)" by (cases x)
  let ?s = "evict conn username s"
  have name: "map_of (clients s) conn = username"
    using Cons.prems(3) x by simp
  have d: "distinct (map fst (clients ?s))"
    using Cons.prems(2) by (simp add: evict_clients distinct_delete)
  have fresh: "conn \<notin> fst ` set xs"
    using Cons.prems(1) x by simp
  have "map_of (clients ?s) c' = u'" if "(c', u') \<in> set xs" for c' u'
  proof -
    from that fresh have "c' \<noteq> conn" by force
    moreover from that Cons.prems(3) have "map_of (clients s) c' = u'" by auto
    ultimately show ?thesis by (simp add: evict_clients)
  qed
  then have names: "\<forall>(c', u') \<in> set xs. map_of (clients ?s) c' = u'"
    by auto
  have IH: "inbox c (remove_idle xs ?s) =
     inbox c ?s @
     (if has_key c (clients ?s) \<and> faults ?s c = None
      then disconnect_notices (takeWhile (\<lambda>x. fst x \<noteq> c) xs) @
        (if c \<in> fst ` set xs \<and> (\<exists>u. map_of (clients ?s) c = Some u \<and> u \<noteq> [])
         then [py ''ERR idle-timeout'' @ [nl]] else [])
      else [])"
    using Cons.IH [OF _ d names] Cons.prems(1) by simp
  show ?case
  proof (cases "c = conn")
    case True
    have "inbox c (remove_idle xs ?s) = inbox c ?s"
      using IH True by (simp add: evict_clients has_key_delete)
    also have "\<dots> = inbox c s @
        (if faults s conn = None \<and> (\<exists>u. username = Some u \<and> u \<noteq> [])
         then [py ''ERR idle-timeout'' @ [nl]] else [])"
      using True by (simp add: evict_inbox [OF Cons.prems(2)])
    finally show ?thesis
      using True x name by (auto simp: has_key_map_of)
  next
    case False
    have later: "inbox c (remove_idle xs ?s) = inbox c ?s @
       (if has_key c (clients s) \<and> faults s c = None
        then disconnect_notices (takeWhile (\<lambda>x. fst x \<noteq> c) xs) @
          (if c \<in> fst ` set xs \<and> (\<exists>u. map_of (clients s) c = Some u \<and> u \<noteq> [])
           then [py ''ERR idle-timeout'' @ [nl]] else [])
        else [])"
      using IH False by (simp add: evict_clients evict_faults has_key_delete delete_conv')
    have first: "inbox c ?s = inbox c s @
       (if has_key c (clients s) \<and> faults s c = None
        then disconnect_notices [(conn, username)] else [])"
      using False by (simp add: evict_inbox [OF Cons.prems(2)])
    have step: "remove_idle (x # xs) s = remove_idle xs ?s"
      using x by simp
    have "takeWhile (\<lambda>x. fst x \<noteq> c) (x # xs) = x # takeWhile (\<lambda>x. fst x \<noteq> c) xs"
      using False x by simp
    then have notices: "disconnect_notices (takeWhile (\<lambda>x. fst x \<noteq> c) (x # xs)) =
        disconnect_notices [(conn, username)] @
        disconnect_notices (takeWhile (\<lambda>x. fst x \<noteq> c) xs)"
      using x by (simp add: disconnect_notices_def)
    have member: "c \<in> fst ` set (x # xs) \<longleftrightarrow> c \<in> fst ` set xs"
      using False x by simp
    show ?thesis
      unfolding step later first notices member by simp
  qed
qed

text \<open>
  C7, as the code has it. One round of the reaper at the time \<open>now\<close>, in a state whose
  dictionaries hold each key once. The connections collected are exactly those whose last
  activity lies more than the timeout back, each once and with the name \<open>clients\<close> holds
  for it. Every one of them is torn down, whether or not a notice could be sent: it is
  gone from \<open>clients\<close> and \<open>last_activity\<close>, its name if it has one is gone from
  \<open>usernames\<close>, and its socket is closed; every other entry of the three dictionaries
  and every other socket is what it was. A collected
  connection that has a name is sent \<open>ERR idle-timeout\<close> as the last line it gets, after
  the lines about the connections removed before it; a collected connection without a
  name is sent nothing. A connected client that stays gets one line
  \<open>INFO name disconnected\<close> for each collected connection that has a name, and nothing
  else.
\<close>

theorem idle_round_evicts_the_stale_sessions:
  assumes "distinct (map fst (clients s))" and "distinct (map fst (last_activity s))"
  shows "(\<forall>conn username. (conn, username) \<in> set (clients_to_remove now s) \<longleftrightarrow>
       (\<exists>last_time. map_of (last_activity s) conn = Some last_time \<and>
          float_gt_int (float_sub now last_time) (idle_timeout s)) \<and>
       username = map_of (clients s) conn) \<and>
    distinct (map fst (clients_to_remove now s)) \<and>
    (\<forall>conn \<in> fst ` set (clients_to_remove now s).
       \<not> has_key conn (clients (check_idle_round now s)) \<and>
       \<not> has_key conn (last_activity (check_idle_round now s)) \<and>
       faults (check_idle_round now s) conn = Some OSError) \<and>
    (\<forall>c. inbox c (check_idle_round now s) =
       inbox c s @
       (if has_key c (clients s) \<and> faults s c = None
        then disconnect_notices (takeWhile (\<lambda>x. fst x \<noteq> c) (clients_to_remove now s)) @
          (if c \<in> fst ` set (clients_to_remove now s) \<and>
              (\<exists>u. map_of (clients s) c = Some u \<and> u \<noteq> [])
           then [py ''ERR idle-timeout'' @ [nl]] else [])
        else [])) \<and>
    (\<forall>c. c \<notin> fst ` set (clients_to_remove now s) \<longrightarrow>
       inbox c (check_idle_round now s) =
       inbox c s @
       (if has_key c (clients s) \<and> faults s c = None
        then disconnect_notices (clients_to_remove now s) else [])) \<and>
    (\<forall>c. map_of (clients (check_idle_round now s)) c =
       (if c \<in> fst ` set (clients_to_remove now s) then None else map_of (clients s) c)) \<and>
    (\<forall>c. map_of (last_activity (check_idle_round now s)) c =
       (if c \<in> fst ` set (clients_to_remove now s) then None
        else map_of (last_activity s) c)) \<and>
    (\<forall>u. map_of (usernames (check_idle_round now s)) u =
       (if u \<noteq> [] \<and> (\<exists>conn. (conn, Some u) \<in> set (clients_to_remove now s)) then None
        else map_of (usernames s) u)) \<and>
    (\<forall>c. faults (check_idle_round now s) c =
       (if c \<in> fst ` set (clients_to_remove now s) then Some OSError else faults s c))"
proof -
  let ?xs = "clients_to_remove now s"
  let ?stale = "\<lambda>(conn, last_time). float_gt_int (float_sub now last_time) (idle_timeout s)"
  have keys: "map fst ?xs = map fst (filter ?stale (last_activity s))"
    by (simp add: clients_to_remove_def case_prod_unfold comp_def)
  have dist: "distinct (map fst ?xs)"
    unfolding keys using assms(2) by (rule distinct_map_filter)
  have names: "\<forall>(conn, username) \<in> set ?xs. map_of (clients s) conn = username"
    by (auto simp: clients_to_remove_def)
  have member: "(conn, username) \<in> set ?xs \<longleftrightarrow>
       (\<exists>last_time. map_of (last_activity s) conn = Some last_time \<and>
          float_gt_int (float_sub now last_time) (idle_timeout s)) \<and>
       username = map_of (clients s) conn" for conn username
    using assms(2) by (auto simp: clients_to_remove_def)
  have gone: "\<not> has_key conn (clients (check_idle_round now s)) \<and>
       \<not> has_key conn (last_activity (check_idle_round now s)) \<and>
       faults (check_idle_round now s) conn = Some OSError"
    if "conn \<in> fst ` set ?xs" for conn
    using that
    by (simp add: check_idle_round_def remove_idle_has_key_clients
        remove_idle_has_key_last_activity remove_idle_faults)
  have lines: "inbox c (check_idle_round now s) =
       inbox c s @
       (if has_key c (clients s) \<and> faults s c = None
        then disconnect_notices (takeWhile (\<lambda>x. fst x \<noteq> c) ?xs) @
          (if c \<in> fst ` set ?xs \<and> (\<exists>u. map_of (clients s) c = Some u \<and> u \<noteq> [])
           then [py ''ERR idle-timeout'' @ [nl]] else [])
        else [])" for c
    unfolding check_idle_round_def by (rule remove_idle_inbox [OF dist assms(1) names])
  have others: "inbox c (check_idle_round now s) =
       inbox c s @
       (if has_key c (clients s) \<and> faults s c = None then disconnect_notices ?xs else [])"
    if "c \<notin> fst ` set ?xs" for c
  proof -
    from that have "\<forall>x \<in> set ?xs. fst x \<noteq> c"
      by auto
    then have all: "takeWhile (\<lambda>x. fst x \<noteq> c) ?xs = ?xs"
      by (simp only: takeWhile_eq_all_conv)
    show ?thesis
      unfolding lines [of c] all using that by simp
  qed
  have left: "map_of (clients (check_idle_round now s)) c =
       (if c \<in> fst ` set ?xs then None else map_of (clients s) c)"
    and times: "map_of (last_activity (check_idle_round now s)) c =
       (if c \<in> fst ` set ?xs then None else map_of (last_activity s) c)" for c
    unfolding check_idle_round_def
    by (rule remove_idle_clients, rule remove_idle_last_activity)
  have freed: "map_of (usernames (check_idle_round now s)) u =
       (if u \<noteq> [] \<and> (\<exists>conn. (conn, Some u) \<in> set ?xs) then None
        else map_of (usernames s) u)" for u
    unfolding check_idle_round_def by (rule remove_idle_usernames)
  have closed: "faults (check_idle_round now s) c =
       (if c \<in> fst ` set ?xs then Some OSError else faults s c)" for c
    unfolding check_idle_round_def by (rule remove_idle_faults)
  from member dist gone lines others left times freed closed show ?thesis by blast
qed

text \<open>
  A round at time 100 with alice idle, bob idle on a broken socket, carol active and a
  fourth connection idle before its login.
\<close>

theorem idle_round_evicts_the_stale_sessions_witness:
  "distinct (map fst (clients idle_example)) \<and>
   distinct (map fst (last_activity idle_example)) \<and>
   clients_to_remove 100 idle_example =
     [(1, Some (py ''alice'')), (2, Some (py ''bob'')), (4, None)] \<and>
   \<not> has_key 1 (clients (check_idle_round 100 idle_example)) \<and>
   \<not> has_key 1 (last_activity (check_idle_round 100 idle_example)) \<and>
   \<not> has_key 2 (clients (check_idle_round 100 idle_example)) \<and>
   \<not> has_key 2 (last_activity (check_idle_round 100 idle_example)) \<and>
   \<not> has_key 4 (last_activity (check_idle_round 100 idle_example)) \<and>
   inbox 1 (check_idle_round 100 idle_example) = [py ''ERR idle-timeout'' @ [nl]] \<and>
   inbox 2 (check_idle_round 100 idle_example) = [] \<and>
   inbox 3 (check_idle_round 100 idle_example) =
     [py ''INFO alice disconnected'' @ [nl], py ''INFO bob disconnected'' @ [nl]] \<and>
   inbox 4 (check_idle_round 100 idle_example) = [] \<and>
   map_of (usernames (check_idle_round 100 idle_example)) (py ''alice'') = None \<and>
   map_of (usernames (check_idle_round 100 idle_example)) (py ''bob'') = None \<and>
   map_of (usernames (check_idle_round 100 idle_example)) (py ''carol'') = Some 3 \<and>
   map_of (clients (check_idle_round 100 idle_example)) 3 = Some (py ''carol'') \<and>
   map_of (last_activity (check_idle_round 100 idle_example)) 3 = Some 90 \<and>
   faults (check_idle_round 100 idle_example) 1 = Some OSError \<and>
   faults (check_idle_round 100 idle_example) 3 = None"
proof -
  have d1: "distinct (map fst (clients idle_example))"
    and d2: "distinct (map fst (last_activity idle_example))"
    by (simp_all add: idle_example_def alice_and_bob_def init_def)
  have snap: "clients_to_remove 100 idle_example =
      [(1, Some (py ''alice'')), (2, Some (py ''bob'')), (4, None)]"
    by (simp add: clients_to_remove_def idle_example_def alice_and_bob_def init_def float_eval)
  have st: "has_key 1 (clients idle_example)" "has_key 2 (clients idle_example)"
    "has_key 3 (clients idle_example)" "\<not> has_key 4 (clients idle_example)"
    "faults idle_example 1 = None" "faults idle_example 2 = Some BrokenPipeError"
    "faults idle_example 3 = None" "faults idle_example 4 = None"
    "map_of (clients idle_example) 1 = Some (py ''alice'')"
    "inbox 1 idle_example = []" "inbox 2 idle_example = []"
    "inbox 3 idle_example = []" "inbox 4 idle_example = []"
    by (simp_all add: idle_example_def alice_and_bob_def init_def has_key_def inbox_def)
  have lit: "py ''alice'' \<noteq> []" "py ''bob'' \<noteq> []"
    "py ''INFO '' @ py ''alice'' @ py '' disconnected'' = py ''INFO alice disconnected''"
    "py ''INFO '' @ py ''bob'' @ py '' disconnected'' = py ''INFO bob disconnected''"
    by (simp_all add: py_def)
  note round = idle_round_evicts_the_stale_sessions [OF d1 d2, of 100, unfolded snap]
  note gone = round [THEN conjunct2, THEN conjunct2, THEN conjunct1]
  note lines = round [THEN conjunct2, THEN conjunct2, THEN conjunct2, THEN conjunct1, THEN spec]
  note left = round [THEN conjunct2, THEN conjunct2, THEN conjunct2, THEN conjunct2,
    THEN conjunct2, THEN conjunct1, THEN spec]
  note times = round [THEN conjunct2, THEN conjunct2, THEN conjunct2, THEN conjunct2,
    THEN conjunct2, THEN conjunct2, THEN conjunct1, THEN spec]
  note freed = round [THEN conjunct2, THEN conjunct2, THEN conjunct2, THEN conjunct2,
    THEN conjunct2, THEN conjunct2, THEN conjunct2, THEN conjunct1, THEN spec]
  note closed = round [THEN conjunct2, THEN conjunct2, THEN conjunct2, THEN conjunct2,
    THEN conjunct2, THEN conjunct2, THEN conjunct2, THEN conjunct2, THEN spec]
  have names: "map_of (usernames idle_example) (py ''carol'') = Some 3"
    "map_of (clients idle_example) 3 = Some (py ''carol'')"
    "map_of (last_activity idle_example) 3 = Some 90"
    "py ''carol'' \<noteq> py ''alice''" "py ''carol'' \<noteq> py ''bob''"
    by (simp_all add: idle_example_def alice_and_bob_def init_def py_def)
  from freed [of "py ''alice''"] freed [of "py ''bob''"] freed [of "py ''carol''"]
    left [of 3] times [of 3]
  have kept: "map_of (usernames (check_idle_round 100 idle_example)) (py ''alice'') = None"
    "map_of (usernames (check_idle_round 100 idle_example)) (py ''bob'') = None"
    "map_of (usernames (check_idle_round 100 idle_example)) (py ''carol'') = Some 3"
    "map_of (clients (check_idle_round 100 idle_example)) 3 = Some (py ''carol'')"
    "map_of (last_activity (check_idle_round 100 idle_example)) 3 = Some 90"
    using names lit by auto
  from closed [of 1] closed [of 3]
  have sockets: "faults (check_idle_round 100 idle_example) 1 = Some OSError"
    "faults (check_idle_round 100 idle_example) 3 = None"
    using st by simp_all
  from gone have "\<not> has_key 1 (clients (check_idle_round 100 idle_example))"
    "\<not> has_key 1 (last_activity (check_idle_round 100 idle_example))"
    "\<not> has_key 2 (clients (check_idle_round 100 idle_example))"
    "\<not> has_key 2 (last_activity (check_idle_round 100 idle_example))"
    "\<not> has_key 4 (last_activity (check_idle_round 100 idle_example))"
    by simp_all
  moreover from lines [of 1] lines [of 2] lines [of 3] lines [of 4]
  have "inbox 1 (check_idle_round 100 idle_example) = [py ''ERR idle-timeout'' @ [nl]]"
    "inbox 2 (check_idle_round 100 idle_example) = []"
    "inbox 3 (check_idle_round 100 idle_example) =
       [py ''INFO alice disconnected'' @ [nl], py ''INFO bob disconnected'' @ [nl]]"
    "inbox 4 (check_idle_round 100 idle_example) = []"
    using st lit by (simp_all add: disconnect_notices_def)
  ultimately show ?thesis
    using d1 d2 snap kept sockets by simp
qed

text \<open>
  C7, as the specification has it, fails where it says that every idle session is sent the
  notice. A connection that was accepted at time 0 and never logged in is idle at time
  100 and its socket works; the round removes it, and neither sends anything nor reports
  a failed send.
\<close>

theorem idle_round_no_notice_counterexample:
  "clients_to_remove 100 (accepted 4 0 ((init 60)\<lparr>running := True\<rparr>)) = [(4, None)] \<and>
   faults (accepted 4 0 ((init 60)\<lparr>running := True\<rparr>)) 4 = None \<and>
   \<not> has_key 4 (last_activity (check_idle_round 100 (accepted 4 0 ((init 60)\<lparr>running := True\<rparr>)))) \<and>
   wire (check_idle_round 100 (accepted 4 0 ((init 60)\<lparr>running := True\<rparr>))) = [] \<and>
   console (check_idle_round 100 (accepted 4 0 ((init 60)\<lparr>running := True\<rparr>))) = []"
  by (simp add: clients_to_remove_def check_idle_round_def accepted_def touch_def init_def
      evict_def remove_client_def has_key_def close_def float_eval)

section \<open>A name in use that the index has lost\<close>

lemma late_teardown_state:
  "late_teardown =
     \<lparr>clients = [(2, py ''bob''), (3, py ''alice'')],
      usernames = [(py ''bob'', 2)],
      last_activity = [(2, 90), (3, 102)],
      running = True,
      idle_timeout = 60,
      faults = (\<lambda>_. None)(1 \<mapsto> OSError),
      wire = [(1, py ''ERR idle-timeout'' @ [nl]), (2, py ''INFO alice disconnected'' @ [nl]),
        (3, py ''OK'' @ [nl]), (2, py ''INFO alice disconnected'' @ [nl]),
        (3, py ''INFO alice disconnected'' @ [nl])],
      console = [User_timed_out (py ''alice''), User_disconnected (py ''alice''),
        User_logged_in (py ''alice''), User_disconnected (py ''alice'')]\<rparr>"
  by (simp add: late_teardown_def alice_and_bob_def init_def check_idle_round_def
      clients_to_remove_def float_eval evict_def remove_client_def has_key_def close_def
      broadcast_def sendall_def send_def handle_client_def accepted_def touch_def
      login_buffer.simps next_line_def login_line_def strip_def isspace_def startswith_def
      py_def nl_def Let_def)

lemma late_teardown_fields:
  "clients late_teardown = [(2, py ''bob''), (3, py ''alice'')]"
  "usernames late_teardown = [(py ''bob'', 2)]"
  "last_activity late_teardown = [(2, 90), (3, 102)]"
  "running late_teardown"
  "faults late_teardown = (\<lambda>_. None)(1 \<mapsto> OSError)"
  "wire late_teardown =
     [(1, py ''ERR idle-timeout'' @ [nl]), (2, py ''INFO alice disconnected'' @ [nl]),
      (3, py ''OK'' @ [nl]), (2, py ''INFO alice disconnected'' @ [nl]),
      (3, py ''INFO alice disconnected'' @ [nl])]"
  by (simp_all add: late_teardown_state)

text \<open>
  C3 at a concrete input. After the late teardown the session on socket 3 is logged in as
  alice and its socket works, but the name alice is no key of \<open>usernames\<close>: the late
  teardown has deleted the entry that belonged to socket 3. A fourth connection that sends
  \<open>LOGIN alice\<close> is answered \<open>OK\<close> and logged in: two sessions bear the name.
\<close>

theorem login_binds_a_name_in_use:
  "map_of (clients late_teardown) 3 = Some (py ''alice'') \<and>
   faults late_teardown 3 = None \<and>
   \<not> has_key (py ''alice'') (usernames late_teardown) \<and>
   fst (login_line 4 (py ''LOGIN alice'') late_teardown) = Return (py ''alice'') \<and>
   inbox 4 (snd (login_line 4 (py ''LOGIN alice'') late_teardown)) = [py ''OK'' @ [nl]] \<and>
   clients (snd (login_line 4 (py ''LOGIN alice'') late_teardown)) =
     [(2, py ''bob''), (3, py ''alice''), (4, py ''alice'')] \<and>
   usernames (snd (login_line 4 (py ''LOGIN alice'') late_teardown)) =
     [(py ''bob'', 2), (py ''alice'', 4)] \<and>
   fst (handle_client 4 103 [Data (py ''LOGIN alice'' @ [nl]) 104] late_teardown) =
     Authenticated (py ''alice'') []"
  by (simp add: late_teardown_fields inbox_def has_key_def handle_client_def accepted_def
      touch_def login_buffer.simps next_line_def login_line_def strip_def isspace_def
      startswith_def send_def sendall_def py_def nl_def Let_def)

text \<open>
  C6 at a concrete input. After the late teardown alice is logged in on socket 3 and her
  socket works. Bob sends \<open>DM alice hi\<close>: nothing is delivered to socket 3, and bob is
  told \<open>ERR user-not-found alice\<close>.
\<close>

theorem dm_misses_a_logged_in_user:
  "map_of (clients late_teardown) 3 = Some (py ''alice'') \<and>
   faults late_teardown 3 = None \<and>
   map_of (clients late_teardown) 2 = Some (py ''bob'') \<and>
   inbox 3 late_teardown = [py ''OK'' @ [nl], py ''INFO alice disconnected'' @ [nl]] \<and>
   inbox 3 (process_command 2 (py ''bob'') (py ''DM alice hi'') late_teardown) =
     [py ''OK'' @ [nl], py ''INFO alice disconnected'' @ [nl]] \<and>
   inbox 2 (process_command 2 (py ''bob'') (py ''DM alice hi'') late_teardown) =
     inbox 2 late_teardown @ [py ''ERR user-not-found alice'' @ [nl]] \<and>
   wire (process_command 2 (py ''bob'') (py ''DM alice hi'') late_teardown) =
     wire late_teardown @ [(2, py ''ERR user-not-found alice'' @ [nl])]"
  by (simp add: late_teardown_fields inbox_def process_command_def send_private_def split1_def
      strip_def isspace_def startswith_def send_def sendall_def py_def nl_def sp_def Let_def)

section \<open>Every key once\<close>

lemma keys_once_init: "keys_once (init timeout)"
  by (simp add: keys_once_def init_def)

lemma keys_once_same:
  "clients s' = clients s \<Longrightarrow> usernames s' = usernames s \<Longrightarrow>
   last_activity s' = last_activity s \<Longrightarrow> keys_once s' = keys_once s"
  by (simp add: keys_once_def)

lemma keys_once_send [simp]: "keys_once (snd (send conn message s)) = keys_once s"
  by (rule keys_once_same) simp_all

lemma keys_once_broadcast [simp]: "keys_once (broadcast message exclude s) = keys_once s"
  by (rule keys_once_same) simp_all

lemma keys_once_console [simp]: "keys_once (s\<lparr>console := c\<rparr>) = keys_once s"
  by (simp add: keys_once_def)

lemma keys_once_touch: "keys_once s \<Longrightarrow> keys_once (touch conn now s)"
  by (simp add: keys_once_def touch_def distinct_update)

lemma keys_once_close [simp]: "keys_once (close conn s) = keys_once s"
  by (simp add: keys_once_def close_def)

lemma keys_once_remove_client: "keys_once s \<Longrightarrow> keys_once (remove_client conn username s)"
  by (auto simp: keys_once_def remove_client_def Let_def close_def distinct_delete
      split: option.splits)

lemma keys_once_send_users [simp]: "keys_once (send_users conn users s) = keys_once s"
  by (induction users arbitrary: s) simp_all

lemma keys_once_process_command [simp]:
  "keys_once (process_command conn username line s) = keys_once s"
  by (simp add: process_command_def send_private_def Let_def split: option.splits list.splits)

lemma keys_once_process_buffer:
  "keys_once s \<Longrightarrow> keys_once (snd (process_buffer conn username buffer s))"
proof (induction conn username buffer s rule: process_buffer.induct)
  case (1 conn username buffer s)
  then show ?case
    by (subst process_buffer.simps) (auto split: option.splits)
qed

lemma keys_once_message_loop:
  "keys_once s \<Longrightarrow> keys_once (snd (message_loop conn username buffer rs s))"
proof (induction rs arbitrary: buffer s)
  case Nil
  then show ?case by simp
next
  case (Cons r rs)
  show ?case
  proof (cases r)
    case (Data chunk now)
    obtain b s1 where pb: "process_buffer conn username (buffer @ chunk) (touch conn now s) = (b, s1)"
      by (cases "process_buffer conn username (buffer @ chunk) (touch conn now s)")
    from Cons.prems have "keys_once (touch conn now s)" by (rule keys_once_touch)
    then have "keys_once s1"
      using keys_once_process_buffer [of "touch conn now s" conn username "buffer @ chunk"] pb
      by simp
    then have "keys_once (snd (message_loop conn username b rs s1))"
      by (rule Cons.IH)
    with Data pb Cons.prems show ?thesis by simp
  next
    case Eof
    with Cons.prems show ?thesis by simp
  next
    case (Raises e)
    with Cons.prems Cons.IH [of s buffer] show ?thesis by simp
  qed
qed

lemma keys_once_login_line: "keys_once s \<Longrightarrow> keys_once (snd (login_line conn raw s))"
  by (auto simp: login_line_def Let_def keys_once_def distinct_update)

lemma keys_once_login_buffer:
  "keys_once s \<Longrightarrow> keys_once (snd (snd (login_buffer conn buffer s)))"
proof (induction conn buffer s rule: login_buffer.induct)
  case (1 conn buffer s)
  show ?case
  proof (cases "next_line buffer")
    case None
    with "1.prems" show ?thesis by (simp add: login_buffer.simps)
  next
    case (Some p)
    obtain raw rest where p: "p = (raw, rest)" by (cases p)
    obtain step s1 where line: "login_line conn raw s = (step, s1)"
      by (cases "login_line conn raw s")
    from "1.prems" have s1: "keys_once s1"
      using keys_once_login_line [of s conn raw] line by simp
    show ?thesis
    proof (cases step)
      case Continue
      from "1.IH" [OF Some p [symmetric] line [symmetric] Continue s1]
      show ?thesis using Some p line Continue by (simp add: login_buffer.simps)
    next
      case (Return u)
      with Some p line s1 show ?thesis by (simp add: login_buffer.simps)
    qed
  qed
qed

lemma keys_once_handle_login:
  "keys_once s \<Longrightarrow> keys_once (snd (snd (handle_login conn buffer rs s)))"
proof (induction rs arbitrary: buffer s)
  case Nil
  then show ?case by simp
next
  case (Cons r rs)
  show ?case
  proof (cases r)
    case (Data chunk now)
    obtain u b s1 where lb: "login_buffer conn (buffer @ chunk) (touch conn now s) = (u, b, s1)"
      by (rule prod_cases3)
    from Cons.prems have "keys_once (touch conn now s)" by (rule keys_once_touch)
    then have s1: "keys_once s1"
      using keys_once_login_buffer [of "touch conn now s" conn "buffer @ chunk"] lb by simp
    then have "keys_once (snd (snd (handle_login conn b rs s1)))"
      by (rule Cons.IH)
    with Data lb Cons.prems s1 show ?thesis by (cases u) simp_all
  next
    case Eof
    with Cons.prems show ?thesis by simp
  next
    case (Raises e)
    with Cons.prems Cons.IH [of s buffer] show ?thesis by simp
  qed
qed

text \<open>
  Every key is held once by each dictionary of a new server, and whatever a handling
  thread or the reaper does keeps it so.
\<close>

lemma keys_once_handle_client: "keys_once s \<Longrightarrow> keys_once (snd (handle_client conn now rs s))"
proof -
  assume "keys_once s"
  then have a: "keys_once (accepted conn now s)"
    by (simp add: accepted_def keys_once_touch)
  obtain r rs' s1 where hl: "handle_login conn [] rs (accepted conn now s) = (r, rs', s1)"
    by (rule prod_cases3)
  with a have s1: "keys_once s1"
    using keys_once_handle_login [of "accepted conn now s" conn "[]" rs] by simp
  show ?thesis
  proof (cases r)
    case (Blocked b)
    with hl s1 show ?thesis by (simp add: handle_client_def)
  next
    case (Returned u)
    show ?thesis
    proof (cases u)
      case None
      with Returned hl s1 show ?thesis
        by (simp add: handle_client_def keys_once_remove_client)
    next
      case (Some username)
      let ?s = "s1\<lparr>console := console s1 @ [User_logged_in username]\<rparr>"
      obtain r2 s2 where ml: "message_loop conn username [] rs' ?s = (r2, s2)"
        by (cases "message_loop conn username [] rs' ?s")
      from s1 have "keys_once s2"
        using keys_once_message_loop [of ?s conn username "[]" rs'] ml by simp
      with Some Returned hl ml show ?thesis
        by (cases r2) (simp_all add: handle_client_def keys_once_remove_client)
    qed
  qed
qed

lemma keys_once_evict: "keys_once s \<Longrightarrow> keys_once (evict conn username s)"
  by (simp add: evict_def keys_once_remove_client split: option.splits)

lemma keys_once_remove_idle: "keys_once s \<Longrightarrow> keys_once (remove_idle xs s)"
  by (induction xs s rule: remove_idle.induct) (simp_all add: keys_once_evict)

lemma keys_once_check_idle_round: "keys_once s \<Longrightarrow> keys_once (check_idle_round now s)"
  by (simp add: check_idle_round_def keys_once_remove_idle)

end
